theory Spec2Isabelle
  imports Main "HOL-Library.Monad_Syntax"
begin

section \<open>Data model of \<^verbatim>\<open>src/logger.ts\<close>\<close>

text \<open>
  The embedding follows the class \<^verbatim>\<open>Logger\<close> of \<^verbatim>\<open>src/logger.ts\<close> (the version with
  \<^verbatim>\<open>levelThreshold\<close> and \<^verbatim>\<open>logExpireDays\<close>). The payload \<^verbatim>\<open>data?: any\<close> is a type
  parameter \<open>'d\<close>; \<open>None\<close> is \<^verbatim>\<open>undefined\<close>.
\<close>

datatype LogLevel = DEBUG | INFO | WARN | ERROR

record 'd LogEntry =
  timestamp :: string
  level :: LogLevel
  message :: string
  data :: "'d option"
  stack :: "string option"
  url :: "string option"
  userAgent :: "string option"

text \<open>
  What \<^verbatim>\<open>JSON.parse\<close> can return: an array, which the class takes for an array of entries
  (\<^verbatim>\<open>as LogEntry[]\<close>), or any other value (an object, a string, a number, \<^verbatim>\<open>null\<close>), on which
  \<^verbatim>\<open>push\<close> and \<^verbatim>\<open>filter\<close> are not functions.
\<close>

datatype 'd json = Array "'d LogEntry list" | NonArray 'd

text \<open>The private fields of the class. \<^verbatim>\<open>maxLogs\<close> and \<^verbatim>\<open>logExpireDays\<close> are numbers.\<close>

record Logger =
  maxLogs :: nat
  storageKey :: string
  enabled :: bool
  levelThreshold :: LogLevel
  logExpireDays :: int

subsection \<open>Exceptions and results\<close>

text \<open>
  An exception is a value. A primitive that throws and changes nothing returns \<open>exn + 'a\<close>;
  a method that can throw after it has touched the world returns its outcome together with
  the world it leaves behind.
\<close>

datatype exn = SyntaxError | TypeError | DOMException

datatype 'a outcome = Returned 'a | Raised exn

subsection \<open>The host: \<^verbatim>\<open>localStorage\<close>, the console, the window\<close>

text \<open>
  \<^verbatim>\<open>localStorage\<close> is a string-to-string store whose three calls can throw (storage disabled,
  quota exceeded). Whether a call throws is part of the store's state; a write may depend
  on the key and the value written.
\<close>

record storage =
  items :: "string \<rightharpoonup> string"
  getItem_throws :: bool
  setItem_throws :: "string \<Rightarrow> string \<Rightarrow> bool"
  removeItem_throws :: bool

definition localStorage_getItem :: "storage \<Rightarrow> string \<Rightarrow> exn + string option" where
  "localStorage_getItem st k =
     (if getItem_throws st then Inl DOMException else Inr (items st k))"

definition localStorage_setItem :: "storage \<Rightarrow> string \<Rightarrow> string \<Rightarrow> exn + storage" where
  "localStorage_setItem st k v =
     (if setItem_throws st k v then Inl DOMException
      else Inr (st\<lparr>items := (items st)(k \<mapsto> v)\<rparr>))"

definition localStorage_removeItem :: "storage \<Rightarrow> string \<Rightarrow> exn + storage" where
  "localStorage_removeItem st k =
     (if removeItem_throws st then Inl DOMException
      else Inr (st\<lparr>items := (items st)(k := None)\<rparr>))"

datatype console_method = Console_debug | Console_info | Console_warn | Console_error | Console_log

datatype 'd console_arg = Text string | Payload "'d option"

record 'd world =
  localStorage :: storage
  console :: "(console_method \<times> 'd console_arg list) list"
  listeners :: "string list"

text \<open>
  The library functions the class calls, taken as parameters: \<^verbatim>\<open>JSON.stringify(logs)\<close>,
  \<^verbatim>\<open>JSON.stringify(value, null, 2)\<close>, \<^verbatim>\<open>JSON.parse(raw)\<close>, \<^verbatim>\<open>new Date(s).getTime()\<close> (\<open>None\<close>
  is \<^verbatim>\<open>NaN\<close>), and the three tests \<^verbatim>\<open>createLogEntry\<close> makes on the payload. The elements of
  an array that parses are taken for entries.
\<close>

record 'd platform =
  JSON_stringify :: "'d LogEntry list \<Rightarrow> exn + string"
  JSON_stringify_pretty :: "'d json \<Rightarrow> exn + string"
  JSON_parse :: "string \<Rightarrow> exn + 'd json"
  Date_getTime :: "string \<Rightarrow> int option"
  instanceof_Error :: "'d \<Rightarrow> bool"
  typeof_object :: "'d \<Rightarrow> bool"
  stack_of :: "'d \<Rightarrow> string option"

text \<open>What a log call reads from its surroundings at the moment it runs.\<close>

record ambient =
  now_iso :: string
  fresh_stack :: "string option"
  location_href :: "string option"
  navigator_userAgent :: "string option"

section \<open>The methods of \<^verbatim>\<open>Logger\<close>\<close>

definition setLevelThreshold :: "LogLevel \<Rightarrow> Logger \<Rightarrow> Logger" where
  "setLevelThreshold lvl L = L\<lparr>levelThreshold := lvl\<rparr>"

text \<open>
  \<^verbatim>\<open>levelOrder\<close> has a \<^verbatim>\<open>default: return 0\<close> branch, and \<^verbatim>\<open>logToConsole\<close> a
  \<^verbatim>\<open>default: console.log\<close> branch; no value of the enum reaches them.
\<close>

fun levelOrder :: "LogLevel \<Rightarrow> nat" where
  "levelOrder DEBUG = 0"
| "levelOrder INFO = 1"
| "levelOrder WARN = 2"
| "levelOrder ERROR = 3"

definition shouldLog :: "Logger \<Rightarrow> LogLevel \<Rightarrow> bool" where
  "shouldLog L lvl = (levelOrder lvl \<ge> levelOrder (levelThreshold L))"

definition safeLocalStorageSet :: "string \<Rightarrow> string \<Rightarrow> 'd world \<Rightarrow> 'd world" where
  "safeLocalStorageSet k v w =
     (case localStorage_setItem (localStorage w) k v of
        Inr st \<Rightarrow> w\<lparr>localStorage := st\<rparr>
      | Inl _ \<Rightarrow> w)"

definition safeLocalStorageGet :: "string \<Rightarrow> 'd world \<Rightarrow> string option" where
  "safeLocalStorageGet k w =
     (case localStorage_getItem (localStorage w) k of
        Inr r \<Rightarrow> r
      | Inl _ \<Rightarrow> None)"

definition truthy :: "string option \<Rightarrow> bool" where
  "truthy s = (case s of None \<Rightarrow> False | Some t \<Rightarrow> t \<noteq> [])"

text \<open>
  \<^verbatim>\<open>
  let stack: string | undefined = undefined;
  if (data && data instanceof Error) { stack = data.stack; }
  else if (typeof data === "object" && data?.stack) { stack = data.stack; }
  else { stack = new Error().stack; }
  return { timestamp: new Date().toISOString(), level, message, data, stack,
           url: typeof window !== "undefined" ? window.location.href : "",
           userAgent: typeof navigator !== "undefined" ? navigator.userAgent : "" };
  \<close>
\<close>

definition createLogEntry ::
  "'d platform \<Rightarrow> LogLevel \<Rightarrow> string \<Rightarrow> 'd option \<Rightarrow> ambient \<Rightarrow> 'd LogEntry" where
  "createLogEntry P lvl msg dat amb =
     \<lparr>timestamp = now_iso amb,
      level = lvl,
      message = msg,
      data = dat,
      stack =
        (case dat of
           None \<Rightarrow> fresh_stack amb
         | Some d \<Rightarrow>
             if instanceof_Error P d then stack_of P d
             else if typeof_object P d \<and> truthy (stack_of P d) then stack_of P d
             else fresh_stack amb),
      url = Some (case location_href amb of Some h \<Rightarrow> h | None \<Rightarrow> []),
      userAgent = Some (case navigator_userAgent amb of Some u \<Rightarrow> u | None \<Rightarrow> [])\<rparr>"

definition clearLogs :: "Logger \<Rightarrow> 'd world \<Rightarrow> 'd world" where
  "clearLogs L w =
     (if \<not> enabled L then w
      else case localStorage_removeItem (localStorage w) (storageKey L) of
             Inr st \<Rightarrow> w\<lparr>localStorage := st\<rparr>
           | Inl _ \<Rightarrow> w)"

text \<open>
  \<^verbatim>\<open>
  if (!this.enabled) return [];
  const raw = this.safeLocalStorageGet(this.storageKey);
  if (!raw) return [];
  try { return JSON.parse(raw) as LogEntry[]; }
  catch { this.clearLogs(); return []; }
  \<close>
  \<^verbatim>\<open>!raw\<close> holds for \<^verbatim>\<open>null\<close> and for the empty string. Whatever \<^verbatim>\<open>JSON.parse\<close> returns is
  returned, an array or not.
\<close>

definition getLogs :: "'d platform \<Rightarrow> Logger \<Rightarrow> 'd world \<Rightarrow> 'd json \<times> 'd world" where
  "getLogs P L w =
     (if \<not> enabled L then (Array [], w)
      else case safeLocalStorageGet (storageKey L) w of
             None \<Rightarrow> (Array [], w)
           | Some raw \<Rightarrow>
               if raw = [] then (Array [], w)
               else (case JSON_parse P raw of
                       Inr logs \<Rightarrow> (logs, w)
                     | Inl _ \<Rightarrow> (Array [], clearLogs L w)))"

text \<open>
  \<^verbatim>\<open>
  if (!this.enabled) return;
  if (!this.shouldLog(entry.level)) return;
  const logs = this.getLogs();
  logs.push(entry);
  if (logs.length > this.maxLogs) { logs.shift(); }
  this.safeLocalStorageSet(this.storageKey, JSON.stringify(logs));
  \<close>
  The argument \<^verbatim>\<open>JSON.stringify(logs)\<close> is evaluated before \<^verbatim>\<open>safeLocalStorageSet\<close> is entered:
  an exception of \<^verbatim>\<open>JSON.stringify\<close> is not caught. Nor is the \<^verbatim>\<open>TypeError\<close> of \<^verbatim>\<open>logs.push\<close>
  when \<^verbatim>\<open>getLogs\<close> returned a value that is not an array.
\<close>

definition saveLog :: "'d platform \<Rightarrow> Logger \<Rightarrow> 'd LogEntry \<Rightarrow> 'd world \<Rightarrow> unit outcome \<times> 'd world" where
  "saveLog P L entry w =
     (if \<not> enabled L then (Returned (), w)
      else if \<not> shouldLog L (level entry) then (Returned (), w)
      else
        let (logs, w1) = getLogs P L w
        in case logs of
             NonArray v \<Rightarrow> (Raised TypeError, w1)
           | Array xs \<Rightarrow>
               let pushed = xs @ [entry];
                   kept = (if length pushed > maxLogs L then tl pushed else pushed)
               in (case JSON_stringify P kept of
                     Inl e \<Rightarrow> (Raised e, w1)
                   | Inr s \<Rightarrow> (Returned (), safeLocalStorageSet (storageKey L) s w1)))"

text \<open>
  \<^verbatim>\<open>
  const expireTime = Date.now() - this.logExpireDays * 24 * 60 * 60 * 1000;
  const logs = this.getLogs();
  const filtered = logs.filter((log) => new Date(log.timestamp).getTime() >= expireTime);
  if (filtered.length !== logs.length) {
    this.safeLocalStorageSet(this.storageKey, JSON.stringify(filtered));
  }
  \<close>
  The time \<^verbatim>\<open>Date.now()\<close> is an argument. A comparison with \<^verbatim>\<open>NaN\<close> is false. On a value
  that is not an array \<^verbatim>\<open>logs.filter\<close> throws a \<^verbatim>\<open>TypeError\<close>.
\<close>

definition fresh_enough :: "'d platform \<Rightarrow> int \<Rightarrow> 'd LogEntry \<Rightarrow> bool" where
  "fresh_enough P expireTime log =
     (case Date_getTime P (timestamp log) of None \<Rightarrow> False | Some t \<Rightarrow> t \<ge> expireTime)"

definition cleanExpiredLogs :: "'d platform \<Rightarrow> Logger \<Rightarrow> int \<Rightarrow> 'd world \<Rightarrow> unit outcome \<times> 'd world" where
  "cleanExpiredLogs P L now w =
     (let expireTime = now - logExpireDays L * 24 * 60 * 60 * 1000;
          (logs, w1) = getLogs P L w
      in case logs of
           NonArray v \<Rightarrow> (Raised TypeError, w1)
         | Array xs \<Rightarrow>
             let filtered = filter (fresh_enough P expireTime) xs
             in if length filtered \<noteq> length xs
                then (case JSON_stringify P filtered of
                        Inl e \<Rightarrow> (Raised e, w1)
                      | Inr s \<Rightarrow> (Returned (), safeLocalStorageSet (storageKey L) s w1))
                else (Returned (), w1))"

fun colorMap :: "LogLevel \<Rightarrow> string" where
  "colorMap DEBUG = ''color: gray''"
| "colorMap INFO = ''color: blue''"
| "colorMap WARN = ''color: orange''"
| "colorMap ERROR = ''color: red; font-weight: bold''"

fun level_name :: "LogLevel \<Rightarrow> string" where
  "level_name DEBUG = ''DEBUG''"
| "level_name INFO = ''INFO''"
| "level_name WARN = ''WARN''"
| "level_name ERROR = ''ERROR''"

fun console_of :: "LogLevel \<Rightarrow> console_method" where
  "console_of DEBUG = Console_debug"
| "console_of INFO = Console_info"
| "console_of WARN = Console_warn"
| "console_of ERROR = Console_error"

text \<open>
  \<^verbatim>\<open>
  if (!this.shouldLog(entry.level)) return;
  const color = this.colorMap[entry.level] || "";
  const baseMsg = `%c[${entry.level}] %c${entry.message}`;
  const styleMsg = "color: black; font-weight: normal";
  switch (entry.level) {
    case LogLevel.DEBUG: console.debug(baseMsg, color, styleMsg, entry.data); break;
    ... }
  \<close>
\<close>

definition console_line :: "'d LogEntry \<Rightarrow> console_method \<times> 'd console_arg list" where
  "console_line entry =
     (console_of (level entry),
      [Text (''%c['' @ level_name (level entry) @ ''] %c'' @ message entry),
       Text (colorMap (level entry)),
       Text ''color: black; font-weight: normal'',
       Payload (data entry)])"

definition logToConsole :: "Logger \<Rightarrow> 'd LogEntry \<Rightarrow> 'd world \<Rightarrow> 'd world" where
  "logToConsole L entry w =
     (if \<not> shouldLog L (level entry) then w
      else w\<lparr>console := console w @ [console_line entry]\<rparr>)"

text \<open>
  The four logging methods: create the entry, \<^verbatim>\<open>saveLog\<close>, then \<^verbatim>\<open>logToConsole\<close>; an
  exception of \<^verbatim>\<open>saveLog\<close> ends the method.
\<close>

definition debug ::
  "'d platform \<Rightarrow> Logger \<Rightarrow> string \<Rightarrow> 'd option \<Rightarrow> ambient \<Rightarrow> 'd world \<Rightarrow> unit outcome \<times> 'd world" where
  "debug P L msg dat amb w =
     (let entry = createLogEntry P DEBUG msg dat amb
      in case saveLog P L entry w of
           (Raised e, w1) \<Rightarrow> (Raised e, w1)
         | (Returned _, w1) \<Rightarrow> (Returned (), logToConsole L entry w1))"

definition info ::
  "'d platform \<Rightarrow> Logger \<Rightarrow> string \<Rightarrow> 'd option \<Rightarrow> ambient \<Rightarrow> 'd world \<Rightarrow> unit outcome \<times> 'd world" where
  "info P L msg dat amb w =
     (let entry = createLogEntry P INFO msg dat amb
      in case saveLog P L entry w of
           (Raised e, w1) \<Rightarrow> (Raised e, w1)
         | (Returned _, w1) \<Rightarrow> (Returned (), logToConsole L entry w1))"

definition warn ::
  "'d platform \<Rightarrow> Logger \<Rightarrow> string \<Rightarrow> 'd option \<Rightarrow> ambient \<Rightarrow> 'd world \<Rightarrow> unit outcome \<times> 'd world" where
  "warn P L msg dat amb w =
     (let entry = createLogEntry P WARN msg dat amb
      in case saveLog P L entry w of
           (Raised e, w1) \<Rightarrow> (Raised e, w1)
         | (Returned _, w1) \<Rightarrow> (Returned (), logToConsole L entry w1))"

definition error ::
  "'d platform \<Rightarrow> Logger \<Rightarrow> string \<Rightarrow> 'd option \<Rightarrow> ambient \<Rightarrow> 'd world \<Rightarrow> unit outcome \<times> 'd world" where
  "error P L msg dat amb w =
     (let entry = createLogEntry P ERROR msg dat amb
      in case saveLog P L entry w of
           (Raised e, w1) \<Rightarrow> (Raised e, w1)
         | (Returned _, w1) \<Rightarrow> (Returned (), logToConsole L entry w1))"

definition exportLogs :: "'d platform \<Rightarrow> Logger \<Rightarrow> 'd world \<Rightarrow> string outcome \<times> 'd world" where
  "exportLogs P L w =
     (if \<not> enabled L then (Returned ''[]'', w)
      else
        let (logs, w1) = getLogs P L w
        in case JSON_stringify_pretty P logs of
             Inl e \<Rightarrow> (Raised e, w1)
           | Inr s \<Rightarrow> (Returned s, w1))"

record LogsSummary =
  total :: nat
  errors :: nat
  warnings :: nat
  info_count :: nat
  debug_count :: nat

text \<open>
  On a value that is not an array, \<^verbatim>\<open>logs.length\<close> (for \<^verbatim>\<open>null\<close>) or the first \<^verbatim>\<open>logs.filter\<close>
  throws a \<^verbatim>\<open>TypeError\<close>.
\<close>

definition getLogsSummary ::
  "'d platform \<Rightarrow> Logger \<Rightarrow> 'd world \<Rightarrow> LogsSummary outcome \<times> 'd world" where
  "getLogsSummary P L w =
     (if \<not> enabled L
      then (Returned \<lparr>total = 0, errors = 0, warnings = 0, info_count = 0, debug_count = 0\<rparr>, w)
      else
        let (logs, w1) = getLogs P L w
        in case logs of
             NonArray v \<Rightarrow> (Raised TypeError, w1)
           | Array xs \<Rightarrow>
               (Returned
                  \<lparr>total = length xs,
                   errors = length (filter (\<lambda>l. level l = ERROR) xs),
                   warnings = length (filter (\<lambda>l. level l = WARN) xs),
                   info_count = length (filter (\<lambda>l. level l = INFO) xs),
                   debug_count = length (filter (\<lambda>l. level l = DEBUG) xs)\<rparr>, w1))"

definition enable :: "Logger \<Rightarrow> Logger" where
  "enable L = L\<lparr>enabled := True\<rparr>"

definition disable :: "Logger \<Rightarrow> Logger" where
  "disable L = L\<lparr>enabled := False\<rparr>"

text \<open>
  The constructor: outside a browser it warns and disables the instance; in a browser it
  sweeps the expired entries and registers the two window listeners (only the registration
  is modelled, not the handlers' bodies).
\<close>

definition Logger_fields :: Logger where
  "Logger_fields =
     \<lparr>maxLogs = 1000, storageKey = ''RKLINK_FRONTEND_LOGS'', enabled = True,
      levelThreshold = DEBUG, logExpireDays = 30\<rparr>"

definition Logger_constructor ::
  "'d platform \<Rightarrow> bool \<Rightarrow> bool \<Rightarrow> int \<Rightarrow> 'd world \<Rightarrow> Logger outcome \<times> 'd world" where
  "Logger_constructor P window_defined document_defined now w =
     (if \<not> window_defined \<or> \<not> document_defined
      then (Returned (Logger_fields\<lparr>enabled := False\<rparr>),
            w\<lparr>console := console w @
               [(Console_warn,
                 [Text ''Logger is designed for browser environments and will be disabled.''])]\<rparr>)
      else case cleanExpiredLogs P Logger_fields now w of
             (Raised e, w1) \<Rightarrow> (Raised e, w1)
           | (Returned _, w1) \<Rightarrow>
               (Returned Logger_fields,
                w1\<lparr>listeners := listeners w1 @ [''error'', ''unhandledrejection'']\<rparr>))"

section \<open>Callers and observations\<close>

text \<open>
  A caller picks one of the four logging methods by the level it wants. A sequence of log
  calls runs like consecutive statements: an exception ends it.
\<close>

type_synonym 'd log_call = "LogLevel \<times> string \<times> 'd option \<times> ambient"

fun call_level :: "'d log_call \<Rightarrow> LogLevel" where
  "call_level (lvl, msg, dat, amb) = lvl"

fun entry_of :: "'d platform \<Rightarrow> 'd log_call \<Rightarrow> 'd LogEntry" where
  "entry_of P (lvl, msg, dat, amb) = createLogEntry P lvl msg dat amb"

fun log_call :: "'d platform \<Rightarrow> Logger \<Rightarrow> 'd log_call \<Rightarrow> 'd world \<Rightarrow> unit outcome \<times> 'd world" where
  "log_call P L (DEBUG, msg, dat, amb) w = debug P L msg dat amb w"
| "log_call P L (INFO, msg, dat, amb) w = info P L msg dat amb w"
| "log_call P L (WARN, msg, dat, amb) w = warn P L msg dat amb w"
| "log_call P L (ERROR, msg, dat, amb) w = error P L msg dat amb w"

fun log_calls :: "'d platform \<Rightarrow> Logger \<Rightarrow> 'd log_call list \<Rightarrow> 'd world \<Rightarrow> unit outcome \<times> 'd world" where
  "log_calls P L [] w = (Returned (), w)"
| "log_calls P L (c # cs) w =
     (case log_call P L c w of
        (Raised e, w1) \<Rightarrow> (Raised e, w1)
      | (Returned _, w1) \<Rightarrow> log_calls P L cs w1)"

text \<open>
  Any use of the instance: each operation is one method call, and the caller goes on with
  the world the call left, whether it returned or threw.
\<close>

datatype 'd operation =
    Log "'d log_call"
  | ClearLogs
  | GetLogs
  | ExportLogs
  | GetLogsSummary
  | SetLevelThreshold LogLevel
  | Enable
  | Disable

fun step :: "'d platform \<Rightarrow> Logger \<times> 'd world \<Rightarrow> 'd operation \<Rightarrow> Logger \<times> 'd world" where
  "step P (L, w) (Log c) = (L, snd (log_call P L c w))"
| "step P (L, w) ClearLogs = (L, clearLogs L w)"
| "step P (L, w) GetLogs = (L, snd (getLogs P L w))"
| "step P (L, w) ExportLogs = (L, snd (exportLogs P L w))"
| "step P (L, w) GetLogsSummary = (L, snd (getLogsSummary P L w))"
| "step P (L, w) (SetLevelThreshold lvl) = (setLevelThreshold lvl L, w)"
| "step P (L, w) Enable = (enable L, w)"
| "step P (L, w) Disable = (disable L, w)"

definition run :: "'d platform \<Rightarrow> Logger \<times> 'd world \<Rightarrow> 'd operation list \<Rightarrow> Logger \<times> 'd world" where
  "run P s ops = foldl (step P) s ops"

text \<open>
  The storage slot of the instance, the value its text stands for (the empty array when it
  is absent, empty or rejected by \<^verbatim>\<open>JSON.parse\<close>), and the collection it holds, whatever the
  instance's \<^verbatim>\<open>enabled\<close> flag says. The slot holds a collection when that value is an array.
\<close>

definition slot :: "Logger \<Rightarrow> 'd world \<Rightarrow> string option" where
  "slot L w = items (localStorage w) (storageKey L)"

definition slot_value :: "'d platform \<Rightarrow> Logger \<Rightarrow> 'd world \<Rightarrow> 'd json" where
  "slot_value P L w =
     (case slot L w of
        None \<Rightarrow> Array []
      | Some raw \<Rightarrow>
          if raw = [] then Array []
          else (case JSON_parse P raw of Inr v \<Rightarrow> v | Inl _ \<Rightarrow> Array []))"

definition persisted :: "'d platform \<Rightarrow> Logger \<Rightarrow> 'd world \<Rightarrow> 'd LogEntry list" where
  "persisted P L w = (case slot_value P L w of Array xs \<Rightarrow> xs | NonArray v \<Rightarrow> [])"

definition holds_array :: "'d platform \<Rightarrow> Logger \<Rightarrow> 'd world \<Rightarrow> bool" where
  "holds_array P L w = (case slot_value P L w of Array xs \<Rightarrow> True | NonArray v \<Rightarrow> False)"

text \<open>The list \<^verbatim>\<open>saveLog\<close> writes: the push, then one shift when the bound is exceeded.\<close>

definition push_bounded :: "nat \<Rightarrow> 'a list \<Rightarrow> 'a \<Rightarrow> 'a list" where
  "push_bounded m logs e = (if length (logs @ [e]) > m then tl (logs @ [e]) else logs @ [e])"

text \<open>
  What the proofs ask of the host. A collection reads back when \<^verbatim>\<open>JSON.stringify\<close> turns it,
  without throwing, into a text that is not empty and that \<^verbatim>\<open>JSON.parse\<close> turns into the same
  collection. For the whole host: text that \<^verbatim>\<open>JSON.stringify\<close> produced is not empty and
  parses back to the value; \<^verbatim>\<open>JSON.stringify\<close> does not throw (the payloads are
  serialisable); the same for the indented form, and \<^verbatim>\<open>[]\<close> is the empty array. A working
  store throws on no call.
\<close>

definition reads_back :: "'d platform \<Rightarrow> 'd LogEntry list \<Rightarrow> bool" where
  "reads_back P xs =
     (\<exists>s. JSON_stringify P xs = Inr s \<and> s \<noteq> [] \<and> JSON_parse P s = Inr (Array xs))"

definition stringify_parses :: "'d platform \<Rightarrow> bool" where
  "stringify_parses P =
     (\<forall>xs s. JSON_stringify P xs = Inr s \<longrightarrow> s \<noteq> [] \<and> JSON_parse P s = Inr (Array xs))"

definition stringify_total :: "'d platform \<Rightarrow> bool" where
  "stringify_total P = (\<forall>xs. \<exists>s. JSON_stringify P xs = Inr s)"

definition pretty_parses :: "'d platform \<Rightarrow> bool" where
  "pretty_parses P =
     ((\<forall>v. \<exists>s. JSON_stringify_pretty P v = Inr s \<and> JSON_parse P s = Inr v)
      \<and> JSON_parse P ''[]'' = Inr (Array []))"

definition storage_works :: "storage \<Rightarrow> bool" where
  "storage_works st =
     (\<not> getItem_throws st \<and> (\<forall>k v. \<not> setItem_throws st k v) \<and> \<not> removeItem_throws st)"

section \<open>A reference host for concrete runs\<close>

text \<open>
  A small host on which the methods can be run: payloads are strings, the JSON text has
  the keys of \<^verbatim>\<open>LogEntry\<close> in their declared order with \<^verbatim>\<open>null\<close> for an absent optional
  field, a text that is one JSON string parses to that string (a value that is not an
  array), and the date reader takes the format \<^verbatim>\<open>toISOString\<close> writes.
\<close>

definition dquote :: char where
  "dquote = CHR 0x22"

definition backslash :: char where
  "backslash = CHR 0x5C"

definition newline :: char where
  "newline = CHR 0x0A"

fun esc :: "char \<Rightarrow> string" where
  "esc c = (if c = dquote \<or> c = backslash then [backslash, c] else [c])"

definition quoted :: "string \<Rightarrow> string" where
  "quoted s = dquote # concat (map esc s) @ [dquote]"

definition opt_quoted :: "string option \<Rightarrow> string" where
  "opt_quoted v = (case v of None \<Rightarrow> ''null'' | Some s \<Rightarrow> quoted s)"

definition field_sep :: "bool \<Rightarrow> string" where
  "field_sep pretty = (if pretty then newline # ''    '' else [])"

definition colon_sep :: "bool \<Rightarrow> string" where
  "colon_sep pretty = (if pretty then '' '' else [])"

definition item_sep :: "bool \<Rightarrow> string" where
  "item_sep pretty = (if pretty then newline # ''  '' else [])"

definition member :: "bool \<Rightarrow> string \<Rightarrow> string \<Rightarrow> string" where
  "member pretty k v = field_sep pretty @ quoted k @ '':'' @ colon_sep pretty @ v"

definition enc_entry :: "bool \<Rightarrow> string LogEntry \<Rightarrow> string" where
  "enc_entry pretty e =
     ''{'' @ member pretty ''timestamp'' (quoted (timestamp e))
     @ '','' @ member pretty ''level'' (quoted (level_name (level e)))
     @ '','' @ member pretty ''message'' (quoted (message e))
     @ '','' @ member pretty ''data'' (opt_quoted (data e))
     @ '','' @ member pretty ''stack'' (opt_quoted (stack e))
     @ '','' @ member pretty ''url'' (opt_quoted (url e))
     @ '','' @ member pretty ''userAgent'' (opt_quoted (userAgent e))
     @ item_sep pretty @ ''}''"

fun enc_items :: "bool \<Rightarrow> string LogEntry list \<Rightarrow> string" where
  "enc_items pretty [] = []"
| "enc_items pretty [e] = item_sep pretty @ enc_entry pretty e"
| "enc_items pretty (e # es) = item_sep pretty @ enc_entry pretty e @ '','' @ enc_items pretty es"

definition array_end :: "bool \<Rightarrow> string" where
  "array_end pretty = (if pretty then [newline] else [])"

definition enc_array :: "bool \<Rightarrow> string LogEntry list \<Rightarrow> string" where
  "enc_array pretty xs =
     (if xs = [] then ''[]''
      else ''['' @ enc_items pretty xs @ array_end pretty @ '']'')"

definition is_ws :: "char \<Rightarrow> bool" where
  "is_ws c = (c = CHR '' '' \<or> c = newline)"

definition skip_ws :: "string \<Rightarrow> string" where
  "skip_ws s = dropWhile is_ws s"

definition ws :: "string \<Rightarrow> bool" where
  "ws w = (\<forall>c\<in>set w. is_ws c)"

definition expect :: "string \<Rightarrow> string \<Rightarrow> string option" where
  "expect lit s =
     (let t = skip_ws s
      in if take (length lit) t = lit then Some (drop (length lit) t) else None)"

fun unquote :: "string \<Rightarrow> (string \<times> string) option" where
  "unquote [] = None"
| "unquote (c # cs) =
     (if c = dquote then Some ([], cs)
      else if c = backslash then
        (case cs of
           [] \<Rightarrow> None
         | d # ds \<Rightarrow> (case unquote ds of None \<Rightarrow> None | Some (r, t) \<Rightarrow> Some (d # r, t)))
      else (case unquote cs of None \<Rightarrow> None | Some (r, t) \<Rightarrow> Some (c # r, t)))"

definition p_string :: "string \<Rightarrow> (string \<times> string) option" where
  "p_string s = (case expect [dquote] s of None \<Rightarrow> None | Some t \<Rightarrow> unquote t)"

definition p_opt_string :: "string \<Rightarrow> (string option \<times> string) option" where
  "p_opt_string s =
     (case expect ''null'' s of
        Some t \<Rightarrow> Some (None, t)
      | None \<Rightarrow> (case p_string s of None \<Rightarrow> None | Some (r, t) \<Rightarrow> Some (Some r, t)))"

definition level_of_name :: "string \<Rightarrow> LogLevel option" where
  "level_of_name n =
     (if n = ''DEBUG'' then Some DEBUG
      else if n = ''INFO'' then Some INFO
      else if n = ''WARN'' then Some WARN
      else if n = ''ERROR'' then Some ERROR
      else None)"

definition p_level :: "string \<Rightarrow> (LogLevel \<times> string) option" where
  "p_level s =
     (case p_string s of
        None \<Rightarrow> None
      | Some (n, t) \<Rightarrow> (case level_of_name n of None \<Rightarrow> None | Some l \<Rightarrow> Some (l, t)))"

definition p_key :: "string \<Rightarrow> string \<Rightarrow> string option" where
  "p_key k s =
     (case p_string s of
        None \<Rightarrow> None
      | Some (k', t) \<Rightarrow> if k' = k then expect '':'' t else None)"

definition p_entry :: "string \<Rightarrow> (string LogEntry \<times> string) option" where
  "p_entry s0 = do {
     s \<leftarrow> expect ''{'' s0;
     s \<leftarrow> p_key ''timestamp'' s;
     (ts, s) \<leftarrow> p_string s;
     s \<leftarrow> expect '','' s;
     s \<leftarrow> p_key ''level'' s;
     (lv, s) \<leftarrow> p_level s;
     s \<leftarrow> expect '','' s;
     s \<leftarrow> p_key ''message'' s;
     (msg, s) \<leftarrow> p_string s;
     s \<leftarrow> expect '','' s;
     s \<leftarrow> p_key ''data'' s;
     (dat, s) \<leftarrow> p_opt_string s;
     s \<leftarrow> expect '','' s;
     s \<leftarrow> p_key ''stack'' s;
     (stk, s) \<leftarrow> p_opt_string s;
     s \<leftarrow> expect '','' s;
     s \<leftarrow> p_key ''url'' s;
     (u, s) \<leftarrow> p_opt_string s;
     s \<leftarrow> expect '','' s;
     s \<leftarrow> p_key ''userAgent'' s;
     (ua, s) \<leftarrow> p_opt_string s;
     s \<leftarrow> expect ''}'' s;
     Some (\<lparr>timestamp = ts, level = lv, message = msg, data = dat, stack = stk,
             url = u, userAgent = ua\<rparr>, s)
   }"

text \<open>The entries of a non-empty array; the fuel is the length of the text.\<close>

fun p_entries :: "nat \<Rightarrow> string \<Rightarrow> (string LogEntry list \<times> string) option" where
  "p_entries 0 s = None"
| "p_entries (Suc n) s =
     (case p_entry s of
        None \<Rightarrow> None
      | Some (e, t) \<Rightarrow>
          (case expect '','' t of
             Some u \<Rightarrow> (case p_entries n u of None \<Rightarrow> None | Some (es, r) \<Rightarrow> Some (e # es, r))
           | None \<Rightarrow> (case expect '']'' t of None \<Rightarrow> None | Some r \<Rightarrow> Some ([e], r))))"

definition p_array :: "string \<Rightarrow> (string LogEntry list \<times> string) option" where
  "p_array s =
     (case expect ''['' s of
        None \<Rightarrow> None
      | Some t \<Rightarrow>
          (case expect '']'' t of
             Some r \<Rightarrow> Some ([], r)
           | None \<Rightarrow> p_entries (length t) t))"

definition ref_parse :: "string \<Rightarrow> exn + string LogEntry list" where
  "ref_parse s =
     (case p_array s of
        None \<Rightarrow> Inl SyntaxError
      | Some (xs, r) \<Rightarrow> if skip_ws r = [] then Inr xs else Inl SyntaxError)"

definition ref_parse_value :: "string \<Rightarrow> exn + string json" where
  "ref_parse_value s =
     (case p_string s of
        Some (v, r) \<Rightarrow> if skip_ws r = [] then Inr (NonArray v) else Inl SyntaxError
      | None \<Rightarrow> (case ref_parse s of Inl e \<Rightarrow> Inl e | Inr xs \<Rightarrow> Inr (Array xs)))"

definition ref_pretty :: "string json \<Rightarrow> string" where
  "ref_pretty v = (case v of Array xs \<Rightarrow> enc_array True xs | NonArray t \<Rightarrow> quoted t)"

text \<open>\<^verbatim>\<open>YYYY-MM-DDTHH:mm:ss.sssZ\<close> to milliseconds since the epoch.\<close>

definition digit :: "char \<Rightarrow> nat option" where
  "digit c =
     (let n = (of_char c :: nat) in if 48 \<le> n \<and> n \<le> 57 then Some (n - 48) else None)"

fun number :: "nat \<Rightarrow> string \<Rightarrow> nat option" where
  "number acc [] = Some acc"
| "number acc (c # cs) =
     (case digit c of None \<Rightarrow> None | Some d \<Rightarrow> number (10 * acc + d) cs)"

definition leap_year :: "nat \<Rightarrow> bool" where
  "leap_year y = (y mod 4 = 0 \<and> (y mod 100 \<noteq> 0 \<or> y mod 400 = 0))"

definition days_in_month :: "nat \<Rightarrow> nat \<Rightarrow> nat" where
  "days_in_month y m =
     (if m = 2 then (if leap_year y then 29 else 28)
      else if m = 4 \<or> m = 6 \<or> m = 9 \<or> m = 11 then 30 else 31)"

definition days_from_civil :: "int \<Rightarrow> int \<Rightarrow> int \<Rightarrow> int" where
  "days_from_civil y m d =
     (let y' = (if m \<le> 2 then y - 1 else y);
          era = y' div 400;
          yoe = y' - era * 400;
          doy = (153 * (if m > 2 then m - 3 else m + 9) + 2) div 5 + d - 1;
          doe = yoe * 365 + yoe div 4 - yoe div 100 + doy
      in era * 146097 + doe - 719468)"

definition iso_getTime :: "string \<Rightarrow> int option" where
  "iso_getTime s =
     (if length s = 24 \<and> s ! 4 = CHR ''-'' \<and> s ! 7 = CHR ''-'' \<and> s ! 10 = CHR ''T''
         \<and> s ! 13 = CHR '':'' \<and> s ! 16 = CHR '':'' \<and> s ! 19 = CHR ''.'' \<and> s ! 23 = CHR ''Z''
      then
        (case (number 0 (take 4 s), number 0 (take 2 (drop 5 s)), number 0 (take 2 (drop 8 s)),
               number 0 (take 2 (drop 11 s)), number 0 (take 2 (drop 14 s)),
               number 0 (take 2 (drop 17 s)), number 0 (take 3 (drop 20 s))) of
           (Some y, Some mo, Some d, Some h, Some mi, Some se, Some ms) \<Rightarrow>
             if 1 \<le> mo \<and> mo \<le> 12 \<and> 1 \<le> d \<and> d \<le> days_in_month y mo
                \<and> h \<le> 23 \<and> mi \<le> 59 \<and> se \<le> 59
             then Some ((((days_from_civil (int y) (int mo) (int d) * 24 + int h) * 60
                          + int mi) * 60 + int se) * 1000 + int ms)
             else None
         | _ \<Rightarrow> None)
      else None)"

definition ref_host :: "string platform" where
  "ref_host =
     \<lparr>JSON_stringify = (\<lambda>xs. Inr (enc_array False xs)),
      JSON_stringify_pretty = (\<lambda>v. Inr (ref_pretty v)),
      JSON_parse = ref_parse_value,
      Date_getTime = iso_getTime,
      instanceof_Error = (\<lambda>d. False),
      typeof_object = (\<lambda>d. False),
      stack_of = (\<lambda>d. None)\<rparr>"

definition fresh_store :: storage where
  "fresh_store =
     \<lparr>items = Map.empty, getItem_throws = False, setItem_throws = (\<lambda>k v. False),
      removeItem_throws = False\<rparr>"

definition fresh_world :: "'d world" where
  "fresh_world = \<lparr>localStorage = fresh_store, console = [], listeners = []\<rparr>"

definition amb0 :: ambient where
  "amb0 =
     \<lparr>now_iso = ''2025-03-01T12:00:00.000Z'', fresh_stack = Some ''Error at main'',
      location_href = Some ''https://app.example/'', navigator_userAgent = Some ''UA''\<rparr>"

text \<open>
  A second host, whose payloads need not survive JSON: a string does, \<^verbatim>\<open>NaN\<close> is written as
  \<^verbatim>\<open>null\<close>, and on a payload that refers to itself \<^verbatim>\<open>JSON.stringify\<close> throws a \<^verbatim>\<open>TypeError\<close>.
\<close>

datatype js_data = Str string | NaN | Circular

definition written :: "js_data LogEntry \<Rightarrow> string LogEntry" where
  "written e =
     \<lparr>timestamp = timestamp e, level = level e, message = message e,
      data = (case data e of Some (Str t) \<Rightarrow> Some t | _ \<Rightarrow> None),
      stack = stack e, url = url e, userAgent = userAgent e\<rparr>"

definition read :: "string LogEntry \<Rightarrow> js_data LogEntry" where
  "read e =
     \<lparr>timestamp = timestamp e, level = level e, message = message e,
      data = map_option Str (data e),
      stack = stack e, url = url e, userAgent = userAgent e\<rparr>"

definition js_stringify :: "js_data LogEntry list \<Rightarrow> exn + string" where
  "js_stringify xs =
     (if Some Circular \<in> set (map data xs) then Inl TypeError
      else Inr (enc_array False (map written xs)))"

definition js_parse :: "string \<Rightarrow> exn + js_data json" where
  "js_parse s =
     (case ref_parse_value s of
        Inl e \<Rightarrow> Inl e
      | Inr (Array xs) \<Rightarrow> Inr (Array (map read xs))
      | Inr (NonArray t) \<Rightarrow> Inr (NonArray (Str t)))"

definition js_pretty :: "js_data json \<Rightarrow> exn + string" where
  "js_pretty v =
     (case v of
        Array xs \<Rightarrow>
          if Some Circular \<in> set (map data xs) then Inl TypeError
          else Inr (enc_array True (map written xs))
      | NonArray (Str t) \<Rightarrow> Inr (quoted t)
      | NonArray NaN \<Rightarrow> Inr ''null''
      | NonArray Circular \<Rightarrow> Inl TypeError)"

definition js_host :: "js_data platform" where
  "js_host =
     \<lparr>JSON_stringify = js_stringify,
      JSON_stringify_pretty = js_pretty,
      JSON_parse = js_parse,
      Date_getTime = iso_getTime,
      instanceof_Error = (\<lambda>d. False),
      typeof_object = (\<lambda>d. d = Circular),
      stack_of = (\<lambda>d. None)\<rparr>"

text \<open>Worlds and calls for the concrete runs.\<close>

definition holding :: "Logger \<Rightarrow> string LogEntry list \<Rightarrow> string world" where
  "holding L xs =
     fresh_world\<lparr>localStorage := fresh_store\<lparr>items := [storageKey L \<mapsto> enc_array False xs]\<rparr>\<rparr>"

definition calls0 :: "string log_call list" where
  "calls0 = [(INFO, ''started'', None, amb0), (ERROR, ''failed'', Some ''boom'', amb0)]"



definition corrupt_world :: "string world" where
  "corrupt_world =
     fresh_world\<lparr>localStorage := fresh_store\<lparr>items := [storageKey Logger_fields \<mapsto> ''not json'']\<rparr>\<rparr>"

definition full_world :: "string world" where
  "full_world =
     fresh_world\<lparr>localStorage :=
       fresh_store\<lparr>items := [storageKey Logger_fields \<mapsto> enc_array False (map (entry_of ref_host) calls0)],
                   setItem_throws := (\<lambda>k v. True)\<rparr>\<rparr>"

definition six_entries :: "string LogEntry list" where
  "six_entries =
     map (entry_of ref_host)
       [(ERROR, ''e1'', None, amb0), (INFO, ''i1'', None, amb0), (WARN, ''w1'', None, amb0),
        (INFO, ''i2'', None, amb0), (ERROR, ''e2'', None, amb0), (INFO, ''i3'', None, amb0)]"

definition entry0 :: "string LogEntry" where
  "entry0 = entry_of ref_host (INFO, ''next'', None, amb0)"

definition old_entry :: "string LogEntry" where
  "old_entry = entry_of ref_host (INFO, ''old'', None, amb0\<lparr>now_iso := ''2025-01-15T08:30:00.000Z''\<rparr>)"

definition recent_entry :: "string LogEntry" where
  "recent_entry = entry_of ref_host (WARN, ''recent'', None, amb0)"

definition string_world :: "string world" where
  "string_world =
     fresh_world\<lparr>localStorage := fresh_store\<lparr>items := [storageKey Logger_fields \<mapsto> quoted ''oops'']\<rparr>\<rparr>"

definition stuck_world :: "string world" where
  "stuck_world =
     fresh_world\<lparr>localStorage :=
       fresh_store\<lparr>items := [storageKey Logger_fields \<mapsto> ''not json''],
                   removeItem_throws := True\<rparr>\<rparr>"

definition js_calls :: "js_data log_call list" where
  "js_calls = [(INFO, ''started'', None, amb0), (ERROR, ''failed'', Some (Str ''boom''), amb0)]"

section \<open>Basic facts about the methods\<close>

lemma getLogs_disabled: "\<not> enabled L \<Longrightarrow> getLogs P L w = (Array [], w)"
  by (simp add: getLogs_def)

lemma clearLogs_frame:
  "console (clearLogs L w) = console w"
  "listeners (clearLogs L w) = listeners w"
  "getItem_throws (localStorage (clearLogs L w)) = getItem_throws (localStorage w)"
  "setItem_throws (localStorage (clearLogs L w)) = setItem_throws (localStorage w)"
  "removeItem_throws (localStorage (clearLogs L w)) = removeItem_throws (localStorage w)"
  by (simp_all add: clearLogs_def localStorage_removeItem_def)

lemma slot_clearLogs:
  "slot L (clearLogs L w) = (if enabled L \<and> \<not> removeItem_throws (localStorage w) then None else slot L w)"
  by (simp add: clearLogs_def slot_def localStorage_removeItem_def)

lemma safeGet_eq:
  "safeLocalStorageGet (storageKey L) w = (if getItem_throws (localStorage w) then None else slot L w)"
  by (simp add: safeLocalStorageGet_def localStorage_getItem_def slot_def)

lemma slot_value_slot: "slot L' w' = slot L w \<Longrightarrow> slot_value P L' w' = slot_value P L w"
  by (simp add: slot_value_def)


lemma getLogs_fst:
  "fst (getLogs P L w)
     = (if enabled L \<and> \<not> getItem_throws (localStorage w) then slot_value P L w else Array [])"
  by (simp add: getLogs_def safeGet_eq slot_value_def split: option.splits sum.splits)

lemma getLogs_frame:
  "console (snd (getLogs P L w)) = console w"
  "listeners (snd (getLogs P L w)) = listeners w"
  "getItem_throws (localStorage (snd (getLogs P L w))) = getItem_throws (localStorage w)"
  "setItem_throws (localStorage (snd (getLogs P L w))) = setItem_throws (localStorage w)"
  "removeItem_throws (localStorage (snd (getLogs P L w))) = removeItem_throws (localStorage w)"
  by (simp_all add: getLogs_def clearLogs_frame split: option.splits sum.splits)


lemma slot_value_getLogs: "slot_value P L (snd (getLogs P L w)) = slot_value P L w"
  by (auto simp add: getLogs_def safeGet_eq slot_value_def slot_clearLogs
      split: option.splits sum.splits)

lemma persisted_getLogs: "persisted P L (snd (getLogs P L w)) = persisted P L w"
  by (simp add: persisted_def slot_value_getLogs)

lemma getLogs_idem: "fst (getLogs P L (snd (getLogs P L w))) = fst (getLogs P L w)"
  by (simp add: getLogs_fst slot_value_getLogs getLogs_frame)

lemma slot_set:
  "slot L (safeLocalStorageSet (storageKey L) s w) =
     (if setItem_throws (localStorage w) (storageKey L) s then slot L w else Some s)"
  by (simp add: safeLocalStorageSet_def localStorage_setItem_def slot_def)

lemma set_frame:
  "console (safeLocalStorageSet k s w) = console w"
  "listeners (safeLocalStorageSet k s w) = listeners w"
  "getItem_throws (localStorage (safeLocalStorageSet k s w)) = getItem_throws (localStorage w)"
  "setItem_throws (localStorage (safeLocalStorageSet k s w)) = setItem_throws (localStorage w)"
  "removeItem_throws (localStorage (safeLocalStorageSet k s w)) = removeItem_throws (localStorage w)"
  by (simp_all add: safeLocalStorageSet_def localStorage_setItem_def)

lemma slot_value_set:
  "reads_back P xs \<Longrightarrow> JSON_stringify P xs = Inr s \<Longrightarrow>
   \<not> setItem_throws (localStorage w) (storageKey L) s \<Longrightarrow>
   slot_value P L (safeLocalStorageSet (storageKey L) s w) = Array xs"
  by (auto simp add: slot_value_def slot_set reads_back_def)

lemma reads_back_global:
  "stringify_parses P \<Longrightarrow> JSON_stringify P xs = Inr s \<Longrightarrow> reads_back P xs"
  by (auto simp add: stringify_parses_def reads_back_def)

lemma saveLog_eq:
  "saveLog P L e w =
     (if \<not> enabled L \<or> \<not> shouldLog L (level e) then (Returned (), w)
      else case fst (getLogs P L w) of
             NonArray v \<Rightarrow> (Raised TypeError, snd (getLogs P L w))
           | Array xs \<Rightarrow>
               (case JSON_stringify P (push_bounded (maxLogs L) xs e) of
                  Inl x \<Rightarrow> (Raised x, snd (getLogs P L w))
                | Inr s \<Rightarrow>
                    (Returned (), safeLocalStorageSet (storageKey L) s (snd (getLogs P L w)))))"
  by (simp add: saveLog_def push_bounded_def Let_def case_prod_beta split: json.splits)

lemma length_push_bounded:
  "length (push_bounded m logs e) = (if length logs < m then length logs + 1 else length logs)"
  by (simp add: push_bounded_def)

lemma log_call_eq:
  "log_call P L c w =
     (case saveLog P L (entry_of P c) w of
        (Raised e, w1) \<Rightarrow> (Raised e, w1)
      | (Returned _, w1) \<Rightarrow> (Returned (), logToConsole L (entry_of P c) w1))"
proof -
  obtain lvl msg dat amb where c: "c = (lvl, msg, dat, amb)"
    by (cases c) auto
  show ?thesis
    unfolding c by (cases lvl) (auto simp add: debug_def info_def warn_def error_def Let_def split: prod.splits outcome.splits)
qed

lemma level_entry_of: "level (entry_of P c) = call_level c"
  by (cases c) (simp add: createLogEntry_def)

lemma logToConsole_frame:
  "localStorage (logToConsole L e w) = localStorage w"
  "listeners (logToConsole L e w) = listeners w"
  by (simp_all add: logToConsole_def)

lemma slot_logToConsole: "slot L (logToConsole L' e w) = slot L w"
  by (simp add: slot_def logToConsole_frame)

lemma slot_value_logToConsole: "slot_value P L (logToConsole L' e w) = slot_value P L w"
  by (simp add: slot_value_def slot_logToConsole)

lemma persisted_logToConsole: "persisted P L (logToConsole L' e w) = persisted P L w"
  by (simp add: persisted_def slot_value_logToConsole)

text \<open>One accepted call whose collection reads back, and a sequence of them.\<close>

lemma log_call_reads_back:
  assumes en: "enabled L" and sw: "storage_works (localStorage w)"
    and lv: "shouldLog L (call_level c)" and sv: "slot_value P L w = Array xs"
    and rb: "reads_back P (push_bounded (maxLogs L) xs (entry_of P c))"
  shows "\<exists>w'. log_call P L c w = (Returned (), w') \<and> storage_works (localStorage w')
           \<and> slot_value P L w' = Array (push_bounded (maxLogs L) xs (entry_of P c))
           \<and> console w' = console w @ [console_line (entry_of P c)]"
proof -
  let ?e = "entry_of P c"
  let ?w1 = "snd (getLogs P L w)"
  let ?kept = "push_bounded (maxLogs L) xs ?e"
  from rb obtain s where s: "JSON_stringify P ?kept = Inr s"
    unfolding reads_back_def by blast
  let ?w2 = "safeLocalStorageSet (storageKey L) s ?w1"
  have g: "fst (getLogs P L w) = Array xs"
    using en sw sv by (simp add: getLogs_fst storage_works_def)
  have sav: "saveLog P L ?e w = (Returned (), ?w2)"
    using en lv s by (simp add: saveLog_eq level_entry_of g)
  have call: "log_call P L c w = (Returned (), logToConsole L ?e ?w2)"
    by (simp add: log_call_eq sav)
  have sw2: "storage_works (localStorage ?w2)"
    using sw by (simp add: storage_works_def set_frame getLogs_frame)
  have "\<not> setItem_throws (localStorage ?w1) (storageKey L) s"
    using sw by (simp add: storage_works_def getLogs_frame)
  with rb s have p2: "slot_value P L ?w2 = Array ?kept"
    by (rule slot_value_set)
  have c2: "console ?w2 = console w"
    by (simp add: set_frame getLogs_frame)
  have p3: "slot_value P L (logToConsole L ?e ?w2) = Array ?kept"
    by (simp add: slot_value_logToConsole p2)
  have s3: "storage_works (localStorage (logToConsole L ?e ?w2))"
    by (simp add: logToConsole_frame sw2)
  have c3: "console (logToConsole L ?e ?w2) = console w @ [console_line ?e]"
    using lv by (simp add: logToConsole_def level_entry_of c2)
  show ?thesis
    using call p3 s3 c3 by blast
qed

lemma log_calls_reads_back:
  assumes en: "enabled L"
  shows "storage_works (localStorage w) \<Longrightarrow> \<forall>c\<in>set cs. shouldLog L (call_level c) \<Longrightarrow>
         slot_value P L w = Array xs \<Longrightarrow> length xs + length cs \<le> maxLogs L \<Longrightarrow>
         \<forall>k. 0 < k \<and> k \<le> length cs \<longrightarrow> reads_back P (xs @ map (entry_of P) (take k cs)) \<Longrightarrow>
         \<exists>w'. log_calls P L cs w = (Returned (), w') \<and> storage_works (localStorage w')
           \<and> slot_value P L w' = Array (xs @ map (entry_of P) cs)"
proof (induction cs arbitrary: w xs)
  case Nil
  then show ?case by simp
next
  case (Cons c cs)
  let ?e = "entry_of P c"
  from Cons.prems(2) have lv: "shouldLog L (call_level c)" by simp
  have pb: "push_bounded (maxLogs L) xs ?e = xs @ [?e]"
    using Cons.prems(4) by (simp add: push_bounded_def)
  from Cons.prems(5)[rule_format, of 1]
  have "reads_back P (xs @ map (entry_of P) (take 1 (c # cs)))"
    by simp
  then have rb: "reads_back P (push_bounded (maxLogs L) xs ?e)"
    by (simp add: pb)
  from log_call_reads_back[OF en Cons.prems(1) lv Cons.prems(3) rb]
  obtain w1 where w1: "log_call P L c w = (Returned (), w1)"
    and sw1: "storage_works (localStorage w1)"
    and p1: "slot_value P L w1 = Array (xs @ [?e])"
    by (auto simp add: pb)
  from Cons.prems(2) have lvs: "\<forall>c\<in>set cs. shouldLog L (call_level c)" by simp
  have len: "length (xs @ [?e]) + length cs \<le> maxLogs L"
    using Cons.prems(4) by simp
  have rbs: "\<forall>k. 0 < k \<and> k \<le> length cs
               \<longrightarrow> reads_back P ((xs @ [?e]) @ map (entry_of P) (take k cs))"
  proof (intro allI impI)
    fix k assume k: "0 < k \<and> k \<le> length cs"
    with Cons.prems(5)[rule_format, of "Suc k"]
    have "reads_back P (xs @ map (entry_of P) (take (Suc k) (c # cs)))"
      by simp
    then show "reads_back P ((xs @ [?e]) @ map (entry_of P) (take k cs))"
      by simp
  qed
  from Cons.IH[OF sw1 lvs p1 len rbs]
  obtain w' where "log_calls P L cs w1 = (Returned (), w')"
    and "storage_works (localStorage w')"
    and "slot_value P L w' = Array ((xs @ [?e]) @ map (entry_of P) cs)"
    by blast
  then show ?case
    using w1 by simp
qed











lemma filter_level_count:
  "length (filter (\<lambda>l. level l = lv) xs) = count_list (map level xs) lv"
  by (induction xs) simp_all

lemma filter_same_length: "length (filter Q xs) = length xs \<Longrightarrow> filter Q xs = xs"
proof (induction xs)
  case Nil
  then show ?case by simp
next
  case (Cons x xs)
  show ?case
  proof (cases "Q x")
    case True
    with Cons show ?thesis by simp
  next
    case False
    with Cons.prems have "length (filter Q xs) = Suc (length xs)" by simp
    moreover have "length (filter Q xs) \<le> length xs" by (rule length_filter_le)
    ultimately show ?thesis by linarith
  qed
qed

lemma cleanExpiredLogs_ok:
  assumes sp: "stringify_parses P" and st: "stringify_total P" and en: "enabled L"
    and sw: "storage_works (localStorage w)" and sv: "slot_value P L w = Array xs"
  shows "\<exists>w'. cleanExpiredLogs P L now w = (Returned (), w')
           \<and> slot_value P L w'
               = Array (filter (fresh_enough P (now - logExpireDays L * 24 * 60 * 60 * 1000)) xs)
           \<and> listeners w' = listeners w"
proof -
  let ?ex = "now - logExpireDays L * 24 * 60 * 60 * 1000"
  let ?w1 = "snd (getLogs P L w)"
  let ?f = "filter (fresh_enough P ?ex) xs"
  have g: "fst (getLogs P L w) = Array xs"
    using en sw sv by (simp add: getLogs_fst storage_works_def)
  show ?thesis
  proof (cases "length ?f = length xs")
    case True
    then have "?f = xs" by (rule filter_same_length)
    then have "slot_value P L ?w1 = Array ?f" by (simp add: slot_value_getLogs sv)
    moreover have "cleanExpiredLogs P L now w = (Returned (), ?w1)"
      using True by (simp add: cleanExpiredLogs_def Let_def case_prod_beta g)
    ultimately show ?thesis by (simp add: getLogs_frame)
  next
    case False
    from st obtain s where s: "JSON_stringify P ?f = Inr s"
      unfolding stringify_total_def by blast
    let ?w2 = "safeLocalStorageSet (storageKey L) s ?w1"
    have c: "cleanExpiredLogs P L now w = (Returned (), ?w2)"
      using False s by (simp add: cleanExpiredLogs_def Let_def case_prod_beta g)
    have nt: "\<not> setItem_throws (localStorage ?w1) (storageKey L) s"
      using sw by (simp add: storage_works_def getLogs_frame)
    from sp s have "reads_back P ?f" by (rule reads_back_global)
    from this s nt have "slot_value P L ?w2 = Array ?f" by (rule slot_value_set)
    then show ?thesis using c by (simp add: set_frame getLogs_frame)
  qed
qed

text \<open>
  \<^verbatim>\<open>saveLog\<close> evaluates \<^verbatim>\<open>JSON.stringify(logs)\<close> outside any \<^verbatim>\<open>try\<close>: when it throws, the log call
  throws, and the console line is not printed. The same when \<^verbatim>\<open>getLogs\<close> returned a value
  that is not an array: \<^verbatim>\<open>logs.push\<close> throws.
\<close>

lemma log_call_raises:
  assumes "enabled L" and "shouldLog L (call_level c)" and "fst (getLogs P L w) = Array xs"
    and "JSON_stringify P (push_bounded (maxLogs L) xs (entry_of P c)) = Inl x"
  shows "log_call P L c w = (Raised x, snd (getLogs P L w))"
  using assms by (simp add: log_call_eq saveLog_eq level_entry_of)

lemma log_call_on_non_array:
  assumes "enabled L" and "shouldLog L (call_level c)" and "fst (getLogs P L w) = NonArray v"
  shows "log_call P L c w = (Raised TypeError, snd (getLogs P L w))"
  using assms by (simp add: log_call_eq saveLog_eq level_entry_of)
section \<open>The reference host keeps the contract\<close>

lemma ws_simps [simp]:
  "ws []" "ws (field_sep b)" "ws (item_sep b)" "ws (colon_sep b)" "ws (array_end b)"
  by (auto simp add: ws_def field_sep_def item_sep_def colon_sep_def array_end_def is_ws_def)

lemma skip_ws_append: "ws w \<Longrightarrow> skip_ws (w @ t) = skip_ws t"
  by (simp add: ws_def skip_ws_def)

lemma skip_ws_Cons: "\<not> is_ws c \<Longrightarrow> skip_ws (c # t) = c # t"
  by (simp add: skip_ws_def)

lemma expect_char: "ws w \<Longrightarrow> \<not> is_ws c \<Longrightarrow> expect [c] (w @ c # t) = Some t"
  by (simp add: expect_def skip_ws_append skip_ws_Cons)

lemma expect_char0: "\<not> is_ws c \<Longrightarrow> expect [c] (c # t) = Some t"
  using expect_char[of "[]" c t] by simp

lemma expect_other: "ws w \<Longrightarrow> \<not> is_ws c \<Longrightarrow> c \<noteq> d \<Longrightarrow> expect (d # ds) (w @ c # t) = None"
  by (simp add: expect_def skip_ws_append skip_ws_Cons)

lemma unquote_esc: "unquote (concat (map esc s) @ dquote # t) = Some (s, t)"
  by (induction s) (simp_all add: dquote_def backslash_def)

lemma not_ws_dquote: "\<not> is_ws dquote"
  by (simp add: is_ws_def dquote_def newline_def)

lemma p_string_quoted: "ws w \<Longrightarrow> p_string (w @ quoted s @ t) = Some (s, t)"
  by (simp add: p_string_def quoted_def expect_char not_ws_dquote unquote_esc)

lemma p_opt_string_quoted: "ws w \<Longrightarrow> p_opt_string (w @ opt_quoted v @ t) = Some (v, t)"
proof (cases v)
  case None
  assume "ws w"
  then have "expect ''null'' (w @ ''null'' @ t) = Some t"
    by (simp add: expect_def skip_ws_append skip_ws_Cons is_ws_def newline_def)
  then show ?thesis
    by (simp add: p_opt_string_def opt_quoted_def None)
next
  case (Some s)
  assume w: "ws w"
  have "expect ''null'' (w @ dquote # r) = None" for r
    using w by (intro expect_other) (simp_all add: is_ws_def newline_def dquote_def)
  then have "expect ''null'' (w @ quoted s @ t) = None"
    by (simp add: quoted_def)
  then show ?thesis
    using w by (simp add: p_opt_string_def opt_quoted_def Some p_string_quoted)
qed

lemma level_of_name_level_name: "level_of_name (level_name l) = Some l"
  by (cases l) (simp_all add: level_of_name_def)

lemma p_level_quoted: "ws w \<Longrightarrow> p_level (w @ quoted (level_name l) @ t) = Some (l, t)"
  by (simp add: p_level_def p_string_quoted level_of_name_level_name)

lemma p_key_member: "p_key k (member b k v @ t) = Some (colon_sep b @ v @ t)"
proof -
  have "p_string (field_sep b @ quoted k @ ('':'' @ colon_sep b @ v @ t))
          = Some (k, '':'' @ colon_sep b @ v @ t)"
    by (rule p_string_quoted) simp
  then show ?thesis
    by (simp add: p_key_def member_def expect_char0 is_ws_def newline_def)
qed

lemma p_entry_enc: "ws w \<Longrightarrow> p_entry (w @ enc_entry b e @ t) = Some (e, t)"
  by (simp add: p_entry_def enc_entry_def expect_char expect_char0 p_key_member
      p_string_quoted p_opt_string_quoted p_level_quoted is_ws_def newline_def)

lemma length_enc_items: "length es \<le> length (enc_items b es)"
  by (induction b es rule: enc_items.induct) (simp_all add: enc_entry_def)

lemma p_entries_enc:
  "es \<noteq> [] \<Longrightarrow> length es \<le> n \<Longrightarrow>
   p_entries n (enc_items b es @ array_end b @ '']'' @ t) = Some (es, t)"
proof (induction b es arbitrary: n rule: enc_items.induct)
  case (1 pretty)
  then show ?case by simp
next
  case (2 pretty e)
  then obtain k where n: "n = Suc k" by (cases n) auto
  have c: "expect '','' (array_end pretty @ CHR '']'' # t) = None"
    by (intro expect_other) (simp_all add: is_ws_def newline_def)
  have d: "expect '']'' (array_end pretty @ CHR '']'' # t) = Some t"
    by (intro expect_char) (simp_all add: is_ws_def newline_def)
  show ?case
    by (simp add: n p_entry_enc c d)
next
  case (3 pretty e e' es)
  then obtain k where n: "n = Suc k" and k: "length (e' # es) \<le> k" by (cases n) auto
  have ih: "p_entries k (enc_items pretty (e' # es) @ array_end pretty @ '']'' @ t) = Some (e' # es, t)"
    using 3 k by blast
  have c: "expect '','' (CHR '','' # r) = Some r" for r
    by (intro expect_char0) (simp add: is_ws_def newline_def)
  show ?case
    using ih by (simp add: n p_entry_enc c)
qed

lemma enc_items_start: "es \<noteq> [] \<Longrightarrow> \<exists>r. enc_items b es = item_sep b @ CHR ''{'' # r"
  by (induction b es rule: enc_items.induct) (simp_all add: enc_entry_def)

lemma ref_parse_enc: "ref_parse (enc_array b xs) = Inr xs"
proof (cases "xs = []")
  case True
  have "expect ''['' ''[]'' = Some '']''" "expect '']'' '']'' = Some []"
    by (simp_all add: expect_def skip_ws_def is_ws_def newline_def)
  then show ?thesis
    by (simp add: True ref_parse_def p_array_def enc_array_def skip_ws_def)
next
  case False
  let ?t = "enc_items b xs @ array_end b @ '']''"
  have o: "expect ''['' (CHR ''['' # ?t) = Some ?t"
    by (intro expect_char0) (simp add: is_ws_def newline_def)
  from enc_items_start[OF False] obtain r where r: "enc_items b xs = item_sep b @ CHR ''{'' # r"
    by blast
  have "expect '']'' (item_sep b @ CHR ''{'' # (r @ array_end b @ '']'')) = None"
    by (intro expect_other) (simp_all add: is_ws_def newline_def)
  then have c: "expect '']'' ?t = None"
    by (simp add: r)
  have "length xs \<le> length ?t"
    using length_enc_items[of xs b] by simp
  from p_entries_enc[OF False this, of b "[]"]
  have "p_entries (length ?t) ?t = Some (xs, [])" by simp
  then show ?thesis
    using o c False by (simp add: ref_parse_def p_array_def enc_array_def skip_ws_def)
qed

lemma enc_array_nonempty: "enc_array b xs \<noteq> []"
  by (simp add: enc_array_def)

lemma enc_array_start: "\<exists>r. enc_array b xs = CHR ''['' # r"
  by (simp add: enc_array_def)

lemma ref_parse_value_enc: "ref_parse_value (enc_array b xs) = Inr (Array xs)"
proof -
  obtain r where r: "enc_array b xs = CHR ''['' # r"
    using enc_array_start by blast
  have "expect [dquote] ([] @ CHR ''['' # r) = None"
    by (intro expect_other) (simp_all add: ws_def is_ws_def newline_def dquote_def)
  then have "p_string (enc_array b xs) = None"
    by (simp add: p_string_def r)
  then show ?thesis
    by (simp add: ref_parse_value_def ref_parse_enc)
qed

lemma ref_parse_value_quoted: "ref_parse_value (quoted v) = Inr (NonArray v)"
proof -
  have "p_string ([] @ quoted v @ []) = Some (v, [])"
    by (rule p_string_quoted) (simp add: ws_def)
  then show ?thesis
    by (simp add: ref_parse_value_def skip_ws_def)
qed

lemma ref_host_stringify: "JSON_stringify ref_host xs = Inr (enc_array False xs)"
  by (simp add: ref_host_def)

lemma ref_host_parse: "JSON_parse ref_host s = ref_parse_value s"
  by (simp add: ref_host_def)

lemma ref_host_stringify_parses: "stringify_parses ref_host"
  by (auto simp add: stringify_parses_def ref_host_stringify ref_host_parse ref_parse_value_enc
      enc_array_nonempty)

lemma ref_host_stringify_total: "stringify_total ref_host"
  by (simp add: stringify_total_def ref_host_stringify)

lemma ref_host_pretty_parses: "pretty_parses ref_host"
proof -
  have e: "ref_parse_value ''[]'' = Inr (Array [])"
    using ref_parse_value_enc[of False "[]"] by (simp add: enc_array_def)
  have "ref_parse_value (ref_pretty v) = Inr v" for v
    by (cases v) (simp_all add: ref_pretty_def ref_parse_value_enc ref_parse_value_quoted)
  then show ?thesis
    by (simp add: pretty_parses_def ref_host_def e)
qed

lemma slot_holding: "slot L (holding L xs) = Some (enc_array False xs)"
  by (simp add: slot_def holding_def fresh_world_def fresh_store_def)

lemma slot_value_holding: "slot_value ref_host L (holding L xs) = Array xs"
  by (simp add: slot_value_def slot_holding ref_host_parse ref_parse_value_enc enc_array_nonempty)

lemma persisted_holding: "persisted ref_host L (holding L xs) = xs"
  by (simp add: persisted_def slot_value_holding)

lemma holds_array_holding: "holds_array ref_host L (holding L xs)"
  by (simp add: holds_array_def slot_value_holding)

lemma storage_works_holding: "storage_works (localStorage (holding L xs))"
  by (simp add: holding_def fresh_world_def fresh_store_def storage_works_def)

lemma getLogs_holding:
  "enabled L \<Longrightarrow> getLogs ref_host L (holding L xs) = (Array xs, holding L xs)"
proof -
  assume "enabled L"
  moreover have "\<not> getItem_throws (localStorage (holding L xs))"
    using storage_works_holding[of L xs] by (simp add: storage_works_def)
  moreover have "JSON_parse ref_host (enc_array False xs) = Inr (Array xs)"
    by (simp add: ref_host_parse ref_parse_value_enc)
  ultimately show ?thesis
    by (simp add: getLogs_def safeGet_eq slot_holding enc_array_nonempty)
qed

text \<open>The second host: a collection without \<^verbatim>\<open>NaN\<close> or circular payloads reads back.\<close>

lemma read_written:
  "data e \<noteq> Some NaN \<Longrightarrow> data e \<noteq> Some Circular \<Longrightarrow> read (written e) = e"
  by (cases e) (auto simp add: read_def written_def split: option.splits js_data.splits)

lemma js_host_stringify: "JSON_stringify js_host xs = js_stringify xs"
  by (simp add: js_host_def)

lemma js_host_parse: "JSON_parse js_host s = js_parse s"
  by (simp add: js_host_def)

lemma js_parse_enc: "js_parse (enc_array b ys) = Inr (Array (map read ys))"
  by (simp add: js_parse_def ref_parse_value_enc)

lemma js_reads_back:
  assumes "\<forall>e\<in>set xs. data e \<noteq> Some NaN \<and> data e \<noteq> Some Circular"
  shows "reads_back js_host xs"
proof -
  have "Some Circular \<notin> set (map data xs)"
    using assms by auto
  then have s: "js_stringify xs = Inr (enc_array False (map written xs))"
    by (simp add: js_stringify_def)
  have "map read (map written xs) = xs"
    using assms by (simp add: read_written map_idI)
  then have "js_parse (enc_array False (map written xs)) = Inr (Array xs)"
    by (simp add: js_parse_enc)
  then show ?thesis
    using s by (simp add: reads_back_def js_host_stringify js_host_parse enc_array_nonempty)
qed

lemma iso_getTime_old: "iso_getTime ''2025-01-15T08:30:00.000Z'' = Some 1736929800000"
  by (simp add: iso_getTime_def digit_def days_in_month_def leap_year_def days_from_civil_def)

lemma iso_getTime_recent: "iso_getTime ''2025-03-01T12:00:00.000Z'' = Some 1740830400000"
  by (simp add: iso_getTime_def digit_def days_in_month_def leap_year_def days_from_civil_def)

section \<open>The claims\<close>

text \<open>
  C1, as stated, fails: the entries are stored as JSON text, and a payload need not survive
  that. With every condition of the claim met (enabled, a working store, an absent slot, one
  call at or above the threshold), a call whose payload refers to itself throws, since
  \<^verbatim>\<open>JSON.stringify\<close> throws, and stores nothing; and a call whose payload is \<^verbatim>\<open>NaN\<close> returns, but
  \<^verbatim>\<open>getLogs\<close> then returns an entry without that payload.
\<close>

theorem log_calls_read_back_counterexample:
  "enabled Logger_fields
   \<and> storage_works (localStorage (fresh_world :: js_data world))
   \<and> slot Logger_fields (fresh_world :: js_data world) = None
   \<and> shouldLog Logger_fields INFO
   \<and> length [(INFO, ''cycle'', Some Circular, amb0)] \<le> maxLogs Logger_fields
   \<and> log_calls js_host Logger_fields [(INFO, ''cycle'', Some Circular, amb0)] fresh_world
       = (Raised TypeError, fresh_world)
   \<and> fst (getLogs js_host Logger_fields fresh_world) = Array []
   \<and> fst (log_calls js_host Logger_fields [(INFO, ''ratio'', Some NaN, amb0)] fresh_world)
       = Returned ()
   \<and> fst (getLogs js_host Logger_fields
          (snd (log_calls js_host Logger_fields [(INFO, ''ratio'', Some NaN, amb0)] fresh_world)))
       = Array [(entry_of js_host (INFO, ''ratio'', Some NaN, amb0))\<lparr>data := None\<rparr>]
   \<and> data (entry_of js_host (INFO, ''ratio'', Some NaN, amb0)) = Some NaN"
proof -
  let ?w = "fresh_world :: js_data world"
  let ?e = "entry_of js_host (INFO, ''ratio'', Some NaN, amb0)"
  let ?s = "enc_array False [written ?e]"
  let ?w2 = "safeLocalStorageSet (storageKey Logger_fields) ?s ?w"
  have g0: "getLogs js_host Logger_fields ?w = (Array [], ?w)"
    by (simp add: getLogs_def safeLocalStorageGet_def localStorage_getItem_def
        Logger_fields_def fresh_world_def fresh_store_def)
  have c: "log_calls js_host Logger_fields [(INFO, ''cycle'', Some Circular, amb0)] ?w
             = (Raised TypeError, ?w)"
    by (simp add: info_def saveLog_def g0 Let_def js_host_stringify js_stringify_def
        createLogEntry_def) (simp add: Logger_fields_def shouldLog_def)
  have st: "JSON_stringify js_host [?e] = Inr ?s"
    by (simp add: js_host_stringify js_stringify_def createLogEntry_def)
  have sv: "saveLog js_host Logger_fields ?e ?w = (Returned (), ?w2)"
    using st by (simp add: saveLog_eq g0 push_bounded_def)
      (simp add: Logger_fields_def shouldLog_def createLogEntry_def)
  have n: "log_calls js_host Logger_fields [(INFO, ''ratio'', Some NaN, amb0)] ?w
             = (Returned (), logToConsole Logger_fields ?e ?w2)"
    using sv by (simp add: info_def Let_def)
  have sl: "slot Logger_fields ?w2 = Some ?s"
    by (simp add: slot_set fresh_world_def fresh_store_def)
  have gt: "\<not> getItem_throws (localStorage (logToConsole Logger_fields ?e ?w2))"
    by (simp add: logToConsole_frame set_frame fresh_world_def fresh_store_def)
  have "slot_value js_host Logger_fields ?w2 = Array (map read [written ?e])"
    using sl by (simp add: slot_value_def enc_array_nonempty js_host_parse js_parse_enc)
  then have "slot_value js_host Logger_fields (logToConsole Logger_fields ?e ?w2)
               = Array [read (written ?e)]"
    by (simp add: slot_value_logToConsole)
  moreover have "read (written ?e) = ?e\<lparr>data := None\<rparr>"
    by (simp add: read_def written_def createLogEntry_def)
  ultimately have r: "fst (getLogs js_host Logger_fields (logToConsole Logger_fields ?e ?w2))
                        = Array [?e\<lparr>data := None\<rparr>]"
    using gt by (simp add: getLogs_fst Logger_fields_def)
  have a: "enabled Logger_fields" "shouldLog Logger_fields INFO"
      "length [(INFO, ''cycle'', Some Circular, amb0)] \<le> maxLogs Logger_fields"
    by (simp_all add: Logger_fields_def shouldLog_def)
  have b: "storage_works (localStorage ?w)" "slot Logger_fields ?w = None"
    by (simp_all add: storage_works_def slot_def fresh_world_def fresh_store_def)
  have d: "data ?e = Some NaN"
    by (simp add: createLogEntry_def)
  show ?thesis
    using a b c g0 n r d by simp
qed

text \<open>
  C1, amended. On an enabled instance with a working store whose slot is absent, take a
  sequence of at most \<^verbatim>\<open>maxLogs\<close> log calls, each at or above \<^verbatim>\<open>levelThreshold\<close>, such that each
  collection the calls write (the entries of the first \<open>k\<close> calls) reads back: \<^verbatim>\<open>JSON.stringify\<close>
  turns it without throwing into non-empty text that \<^verbatim>\<open>JSON.parse\<close> turns into the same
  collection. Then every call returns, and \<^verbatim>\<open>getLogs\<close> returns exactly the entries those
  calls created, in call order, each with the level of its call.
\<close>

theorem log_calls_read_back:
  assumes "enabled L" and "storage_works (localStorage w)" and "slot L w = None"
    and "\<forall>c\<in>set cs. shouldLog L (call_level c)" and "length cs \<le> maxLogs L"
    and "\<forall>k. 0 < k \<and> k \<le> length cs \<longrightarrow> reads_back P (map (entry_of P) (take k cs))"
  shows "\<exists>w'. log_calls P L cs w = (Returned (), w')
           \<and> fst (getLogs P L w') = Array (map (entry_of P) cs)
           \<and> map level (map (entry_of P) cs) = map call_level cs"
proof -
  have empty: "slot_value P L w = Array []"
    using assms(3) by (simp add: slot_value_def)
  have len: "length ([] :: 'a LogEntry list) + length cs \<le> maxLogs L"
    using assms(5) by simp
  have rb: "\<forall>k. 0 < k \<and> k \<le> length cs \<longrightarrow> reads_back P ([] @ map (entry_of P) (take k cs))"
    using assms(6) by simp
  from log_calls_reads_back[OF assms(1) assms(2) assms(4) empty len rb]
  obtain w' where run: "log_calls P L cs w = (Returned (), w')"
    and sw: "storage_works (localStorage w')"
    and p: "slot_value P L w' = Array (map (entry_of P) cs)"
    by auto
  have "fst (getLogs P L w') = Array (map (entry_of P) cs)"
    using assms(1) sw p by (simp add: getLogs_fst storage_works_def)
  moreover have "map level (map (entry_of P) cs) = map call_level cs"
    by (simp add: level_entry_of)
  ultimately show ?thesis
    using run by simp
qed

theorem log_calls_read_back_witness:
  "fst (getLogs js_host Logger_fields (snd (log_calls js_host Logger_fields js_calls fresh_world)))
     = Array (map (entry_of js_host) js_calls)
   \<and> map level (map (entry_of js_host) js_calls) = [INFO, ERROR]"
proof -
  have a: "storage_works (localStorage (fresh_world :: js_data world))"
    by (simp add: fresh_world_def fresh_store_def storage_works_def)
  have b: "slot Logger_fields (fresh_world :: js_data world) = None"
    by (simp add: slot_def fresh_world_def fresh_store_def)
  have c: "\<forall>c\<in>set js_calls. shouldLog Logger_fields (call_level c)"
    by (simp add: js_calls_def shouldLog_def Logger_fields_def)
  have d: "length js_calls \<le> maxLogs Logger_fields" "enabled Logger_fields"
    by (simp_all add: js_calls_def Logger_fields_def)
  have plain: "\<forall>e\<in>set (map (entry_of js_host) js_calls).
                 data e \<noteq> Some NaN \<and> data e \<noteq> Some Circular"
    by (simp add: js_calls_def createLogEntry_def)
  have rb: "\<forall>k. 0 < k \<and> k \<le> length js_calls
              \<longrightarrow> reads_back js_host (map (entry_of js_host) (take k js_calls))"
  proof (intro allI impI)
    fix k
    have "set (map (entry_of js_host) (take k js_calls)) \<subseteq> set (map (entry_of js_host) js_calls)"
      by (auto dest: in_set_takeD)
    with plain have "\<forall>e\<in>set (map (entry_of js_host) (take k js_calls)).
                 data e \<noteq> Some NaN \<and> data e \<noteq> Some Circular"
      by blast
    then show "reads_back js_host (map (entry_of js_host) (take k js_calls))"
      by (rule js_reads_back)
  qed
  from log_calls_read_back[OF d(2) a b c d(1) rb]
  show ?thesis
    by (auto simp add: js_calls_def)
qed



text \<open>
  C3. A log call whose level is strictly below \<^verbatim>\<open>levelThreshold\<close> (in the order
  \<open>DEBUG < INFO < WARN < ERROR\<close> of \<^verbatim>\<open>levelOrder\<close>) returns normally and leaves the world as
  it was: \<^verbatim>\<open>saveLog\<close> writes nothing to the storage and \<^verbatim>\<open>logToConsole\<close> prints nothing. This
  holds for an enabled and for a disabled instance, and whatever the storage or
  \<^verbatim>\<open>JSON.stringify\<close> would have done.
\<close>

theorem below_threshold_dropped:
  assumes "levelOrder (call_level c) < levelOrder (levelThreshold L)"
  shows "log_call P L c w = (Returned (), w)
         \<and> saveLog P L (entry_of P c) w = (Returned (), w)
         \<and> logToConsole L (entry_of P c) w = w"
proof -
  have no: "\<not> shouldLog L (level (entry_of P c))"
    using assms by (simp add: shouldLog_def level_entry_of)
  have sv: "saveLog P L (entry_of P c) w = (Returned (), w)"
    using no by (simp add: saveLog_eq)
  have co: "logToConsole L (entry_of P c) w = w"
    using no by (simp add: logToConsole_def)
  show ?thesis
    by (simp add: log_call_eq sv co)
qed

theorem below_threshold_dropped_witness:
  "levelOrder INFO < levelOrder (levelThreshold (setLevelThreshold WARN Logger_fields))
   \<and> info ref_host (setLevelThreshold WARN Logger_fields) ''hello'' None amb0 fresh_world
       = (Returned (), fresh_world)"
  using below_threshold_dropped
          [of "(INFO, ''hello'', None, amb0)" "setLevelThreshold WARN Logger_fields" ref_host fresh_world]
  by (simp add: setLevelThreshold_def Logger_fields_def)

text \<open>
  C4, as stated, fails: on a disabled instance a log call still prints to the console,
  because \<^verbatim>\<open>logToConsole\<close> tests \<^verbatim>\<open>shouldLog\<close> only and never \<^verbatim>\<open>enabled\<close>. After
  \<^verbatim>\<open>disable()\<close>, \<^verbatim>\<open>info("hello")\<close> on an empty console leaves one \<^verbatim>\<open>console.info\<close> line.
\<close>

theorem disabled_store_console_counterexample:
  "\<not> enabled (disable Logger_fields)
   \<and> console (snd (info ref_host (disable Logger_fields) ''hello'' None amb0 fresh_world))
       = [(Console_info,
           [Text ''%c[INFO] %chello'', Text ''color: blue'',
            Text ''color: black; font-weight: normal'', Payload None])]
   \<and> console fresh_world = []"
  by (simp add: info_def saveLog_def logToConsole_def console_line_def createLogEntry_def
      shouldLog_def disable_def Logger_fields_def fresh_world_def)

text \<open>
  C4, amended. A log call on a disabled instance returns normally and leaves
  \<^verbatim>\<open>localStorage\<close> untouched; the console mirror does not depend on \<^verbatim>\<open>enabled\<close>: the line
  is printed exactly when the level is at or above \<^verbatim>\<open>levelThreshold\<close>.
\<close>

theorem disabled_store_keeps_storage:
  assumes "\<not> enabled L"
  shows "log_call P L c w = (Returned (), logToConsole L (entry_of P c) w)
         \<and> localStorage (snd (log_call P L c w)) = localStorage w
         \<and> console (snd (log_call P L c w))
             = (if shouldLog L (call_level c) then console w @ [console_line (entry_of P c)]
                else console w)"
proof -
  have sv: "saveLog P L (entry_of P c) w = (Returned (), w)"
    using assms by (simp add: saveLog_eq)
  have call: "log_call P L c w = (Returned (), logToConsole L (entry_of P c) w)"
    by (simp add: log_call_eq sv)
  have "console (logToConsole L (entry_of P c) w)
          = (if shouldLog L (call_level c) then console w @ [console_line (entry_of P c)]
             else console w)"
    by (simp add: logToConsole_def level_entry_of)
  then show ?thesis
    by (simp add: call logToConsole_frame)
qed

theorem disabled_store_keeps_storage_witness:
  "\<not> enabled (disable Logger_fields)
   \<and> localStorage (snd (error ref_host (disable Logger_fields) ''failed'' (Some ''boom'') amb0
        (holding Logger_fields [])))
       = localStorage (holding Logger_fields [])
   \<and> console (snd (error ref_host (disable Logger_fields) ''failed'' (Some ''boom'') amb0
        (holding Logger_fields [])))
       = [console_line (entry_of ref_host (ERROR, ''failed'', Some ''boom'', amb0))]"
proof -
  have a: "\<not> enabled (disable Logger_fields)"
    by (simp add: disable_def)
  have b: "shouldLog (disable Logger_fields) ERROR"
    by (simp add: shouldLog_def disable_def Logger_fields_def)
  have c: "console (holding Logger_fields []) = []"
    by (simp add: holding_def fresh_world_def)
  note t = disabled_store_keeps_storage[OF a, of ref_host "(ERROR, ''failed'', Some ''boom'', amb0)"
      "holding Logger_fields []"]
  from t[THEN conjunct2] show ?thesis
    using a b c by simp
qed

text \<open>
  C5. On an enabled instance, when the write a log call attempts throws (\<^verbatim>\<open>getLogs\<close>
  returned an array, \<^verbatim>\<open>JSON.stringify\<close> produced the text of the new collection, and
  \<^verbatim>\<open>localStorage.setItem\<close> throws on that text), the call still returns normally, the
  console line is printed when the level is at or above the threshold, and the stored
  collection is what it was: the collection the slot parses to and the result of \<^verbatim>\<open>getLogs\<close>
  are unchanged, and the slot's text is unchanged unless it was unparsable, in which case
  \<^verbatim>\<open>getLogs\<close> has removed it. A call below the threshold attempts no write.
\<close>

theorem write_failure_swallowed:
  assumes en: "enabled L"
    and wr: "shouldLog L (call_level c) \<longrightarrow>
             (\<exists>xs s. fst (getLogs P L w) = Array xs
                  \<and> JSON_stringify P (push_bounded (maxLogs L) xs (entry_of P c)) = Inr s
                  \<and> setItem_throws (localStorage w) (storageKey L) s)"
  shows "\<exists>w'. log_call P L c w = (Returned (), w')
           \<and> console w'
               = (if shouldLog L (call_level c) then console w @ [console_line (entry_of P c)]
                  else console w)
           \<and> persisted P L w' = persisted P L w
           \<and> fst (getLogs P L w') = fst (getLogs P L w)
           \<and> (slot L w' = slot L w \<or> (slot L w' = None \<and> persisted P L w = []))"
proof (cases "shouldLog L (call_level c)")
  case False
  then have "levelOrder (call_level c) < levelOrder (levelThreshold L)"
    by (simp add: shouldLog_def)
  then have no: "\<not> shouldLog L (level (entry_of P c))"
    by (simp add: shouldLog_def level_entry_of)
  have "saveLog P L (entry_of P c) w = (Returned (), w)"
    using no by (simp add: saveLog_eq)
  moreover have "logToConsole L (entry_of P c) w = w"
    using no by (simp add: logToConsole_def)
  ultimately have "log_call P L c w = (Returned (), w)"
    by (simp add: log_call_eq)
  then show ?thesis using False by simp
next
  case True
  let ?e = "entry_of P c"
  let ?w1 = "snd (getLogs P L w)"
  from wr True obtain xs s where
    g: "fst (getLogs P L w) = Array xs"
    and s: "JSON_stringify P (push_bounded (maxLogs L) xs ?e) = Inr s"
    and th: "setItem_throws (localStorage w) (storageKey L) s"
    by blast
  have th1: "setItem_throws (localStorage ?w1) (storageKey L) s"
    using th by (simp add: getLogs_frame)
  then have set: "safeLocalStorageSet (storageKey L) s ?w1 = ?w1"
    by (simp add: safeLocalStorageSet_def localStorage_setItem_def)
  have sv: "saveLog P L ?e w = (Returned (), ?w1)"
    using en True s set by (simp add: saveLog_eq level_entry_of g)
  let ?w' = "logToConsole L ?e ?w1"
  have call: "log_call P L c w = (Returned (), ?w')"
    by (simp add: log_call_eq sv)
  have co: "console ?w' = console w @ [console_line ?e]"
    using True by (simp add: logToConsole_def level_entry_of getLogs_frame)
  have pe: "persisted P L ?w' = persisted P L w"
    by (simp add: persisted_logToConsole persisted_getLogs)
  have fl: "getItem_throws (localStorage ?w') = getItem_throws (localStorage w)"
    by (simp add: logToConsole_frame getLogs_frame)
  have ge: "fst (getLogs P L ?w') = fst (getLogs P L w)"
    by (simp add: getLogs_fst slot_value_logToConsole slot_value_getLogs fl)
  have sl: "slot L ?w' = slot L w \<or> (slot L ?w' = None \<and> persisted P L w = [])"
    by (auto simp add: slot_logToConsole getLogs_def safeGet_eq slot_clearLogs persisted_def
        slot_value_def split: option.splits sum.splits)
  show ?thesis
    using call co pe ge sl True by simp
qed

theorem write_failure_swallowed_witness:
  "fst (warn ref_host Logger_fields ''slow'' None amb0 full_world) = Returned ()
   \<and> console (snd (warn ref_host Logger_fields ''slow'' None amb0 full_world))
       = [console_line (entry_of ref_host (WARN, ''slow'', None, amb0))]
   \<and> persisted ref_host Logger_fields (snd (warn ref_host Logger_fields ''slow'' None amb0 full_world))
       = map (entry_of ref_host) calls0
   \<and> persisted ref_host Logger_fields full_world = map (entry_of ref_host) calls0"
proof -
  let ?c = "(WARN, ''slow'', None, amb0) :: string log_call"
  let ?xs = "map (entry_of ref_host) calls0"
  have en: "enabled Logger_fields"
    by (simp add: Logger_fields_def)
  have lv: "shouldLog Logger_fields (call_level ?c)"
    by (simp add: shouldLog_def Logger_fields_def)
  have sl: "slot Logger_fields full_world = slot Logger_fields (holding Logger_fields ?xs)"
    by (simp add: slot_def full_world_def holding_def fresh_world_def fresh_store_def)
  then have "slot_value ref_host Logger_fields full_world
          = slot_value ref_host Logger_fields (holding Logger_fields ?xs)"
    by (rule slot_value_slot)
  then have v: "slot_value ref_host Logger_fields full_world = Array ?xs"
    by (simp add: slot_value_holding)
  then have p: "persisted ref_host Logger_fields full_world = ?xs"
    by (simp add: persisted_def)
  have "\<not> getItem_throws (localStorage full_world)"
    by (simp add: full_world_def fresh_world_def fresh_store_def)
  then have g: "fst (getLogs ref_host Logger_fields full_world) = Array ?xs"
    using en v by (simp add: getLogs_fst)
  have th: "setItem_throws (localStorage full_world) (storageKey Logger_fields)
              (enc_array False (push_bounded (maxLogs Logger_fields) ?xs (entry_of ref_host ?c)))"
    by (simp add: full_world_def fresh_world_def fresh_store_def)
  have wr: "shouldLog Logger_fields (call_level ?c) \<longrightarrow>
             (\<exists>xs s. fst (getLogs ref_host Logger_fields full_world) = Array xs
                  \<and> JSON_stringify ref_host
                       (push_bounded (maxLogs Logger_fields) xs (entry_of ref_host ?c)) = Inr s
                  \<and> setItem_throws (localStorage full_world) (storageKey Logger_fields) s)"
    using g th by (intro impI exI[of _ ?xs] exI conjI) (simp_all add: ref_host_stringify)
  have c: "console full_world = []"
    by (simp add: full_world_def fresh_world_def)
  from write_failure_swallowed[OF en wr]
  obtain w' where "log_call ref_host Logger_fields ?c full_world = (Returned (), w')"
    and "console w' = (if shouldLog Logger_fields (call_level ?c)
                       then console full_world @ [console_line (entry_of ref_host ?c)]
                       else console full_world)"
    and "persisted ref_host Logger_fields w' = persisted ref_host Logger_fields full_world"
    by blast
  then show ?thesis
    using lv p c by simp
qed

text \<open>
  C6, as stated, fails. A slot text can fail to be a log collection and still parse: on the
  text \<^verbatim>\<open>"oops"\<close> (one JSON string) \<^verbatim>\<open>JSON.parse\<close> returns the string, \<^verbatim>\<open>getLogs\<close> returns it as
  it is and keeps the slot, and the next log call throws a \<^verbatim>\<open>TypeError\<close> at \<^verbatim>\<open>logs.push\<close>. And
  on a text that \<^verbatim>\<open>JSON.parse\<close> rejects, the slot is not cleared when \<^verbatim>\<open>removeItem\<close> throws:
  \<^verbatim>\<open>clearLogs\<close> swallows the exception.
\<close>

theorem corrupt_payload_recovery_counterexample:
  "enabled Logger_fields
   \<and> slot Logger_fields string_world = Some (quoted ''oops'')
   \<and> getLogs ref_host Logger_fields string_world = (NonArray ''oops'', string_world)
   \<and> log_call ref_host Logger_fields (INFO, ''next'', None, amb0) string_world
       = (Raised TypeError, string_world)
   \<and> slot Logger_fields stuck_world = Some ''not json''
   \<and> JSON_parse ref_host ''not json'' = Inl SyntaxError
   \<and> getLogs ref_host Logger_fields stuck_world = (Array [], stuck_world)"
proof -
  have en: "enabled Logger_fields"
    by (simp add: Logger_fields_def)
  have s1: "slot Logger_fields string_world = Some (quoted ''oops'')"
    by (simp add: slot_def string_world_def fresh_world_def fresh_store_def)
  have q: "quoted ''oops'' \<noteq> []"
    by (simp add: quoted_def)
  have g1: "getLogs ref_host Logger_fields string_world = (NonArray ''oops'', string_world)"
    using en s1 q
    by (simp add: getLogs_def safeGet_eq ref_host_parse ref_parse_value_quoted)
      (simp add: string_world_def fresh_world_def fresh_store_def)
  have lv: "shouldLog Logger_fields (call_level (INFO, ''next'', None :: string option, amb0))"
    by (simp add: shouldLog_def Logger_fields_def)
  have c1: "log_call ref_host Logger_fields (INFO, ''next'', None, amb0) string_world
              = (Raised TypeError, string_world)"
    using log_call_on_non_array[OF en lv, of ref_host string_world "''oops''"]
    by (simp add: g1)
  have s2: "slot Logger_fields stuck_world = Some ''not json''"
    by (simp add: slot_def stuck_world_def fresh_world_def fresh_store_def)
  have p: "JSON_parse ref_host ''not json'' = Inl SyntaxError"
    by (simp add: ref_host_parse ref_parse_value_def ref_parse_def p_array_def p_string_def
        expect_def skip_ws_def is_ws_def newline_def dquote_def)
  have k: "clearLogs Logger_fields stuck_world = stuck_world"
    by (simp add: clearLogs_def localStorage_removeItem_def stuck_world_def fresh_world_def
        fresh_store_def)
  have g2: "getLogs ref_host Logger_fields stuck_world = (Array [], stuck_world)"
    using en s2 p
    by (simp add: getLogs_def safeGet_eq k)
  show ?thesis
    using en s1 g1 c1 s2 p g2 by simp
qed

text \<open>
  C6, amended. On an enabled instance whose slot holds a non-empty text on which
  \<^verbatim>\<open>JSON.parse\<close> throws, \<^verbatim>\<open>getLogs\<close> returns the empty list, and so does a second \<^verbatim>\<open>getLogs\<close>;
  when \<^verbatim>\<open>getItem\<close> and \<^verbatim>\<open>removeItem\<close> do not throw, \<^verbatim>\<open>getLogs\<close> has removed the slot, and the
  second \<^verbatim>\<open>getLogs\<close> changes nothing. On a disabled instance, or with the slot absent or
  holding the empty string, \<^verbatim>\<open>getLogs\<close> returns the empty list and leaves the world as it was.
\<close>

theorem corrupt_payload_recovery:
  "(enabled L \<and> slot L w = Some raw \<and> raw \<noteq> [] \<and> JSON_parse P raw = Inl x
    \<longrightarrow> fst (getLogs P L w) = Array []
        \<and> fst (getLogs P L (snd (getLogs P L w))) = Array []
        \<and> (\<not> getItem_throws (localStorage w) \<and> \<not> removeItem_throws (localStorage w)
            \<longrightarrow> slot L (snd (getLogs P L w)) = None
                \<and> getLogs P L (snd (getLogs P L w)) = (Array [], snd (getLogs P L w))))
   \<and> (\<not> enabled L \<or> slot L w = None \<or> slot L w = Some [] \<longrightarrow> getLogs P L w = (Array [], w))"
proof (intro conjI impI)
  assume h: "enabled L \<and> slot L w = Some raw \<and> raw \<noteq> [] \<and> JSON_parse P raw = Inl x"
  then have v: "slot_value P L w = Array []"
    by (simp add: slot_value_def)
  then show e: "fst (getLogs P L w) = Array []"
    by (simp add: getLogs_fst)
  then show "fst (getLogs P L (snd (getLogs P L w))) = Array []"
    by (simp add: getLogs_idem)
  assume st: "\<not> getItem_throws (localStorage w) \<and> \<not> removeItem_throws (localStorage w)"
  have g: "getLogs P L w = (Array [], clearLogs L w)"
    using h st by (simp add: getLogs_def safeGet_eq)
  have s: "slot L (clearLogs L w) = None"
    using h st by (simp add: slot_clearLogs)
  have f: "\<not> getItem_throws (localStorage (clearLogs L w))"
    using st by (simp add: clearLogs_frame)
  have g2: "getLogs P L (clearLogs L w) = (Array [], clearLogs L w)"
    using h s f by (simp add: getLogs_def safeGet_eq)
  show "slot L (snd (getLogs P L w)) = None" by (simp add: g s)
  show "getLogs P L (snd (getLogs P L w)) = (Array [], snd (getLogs P L w))" by (simp add: g g2)
next
  assume "\<not> enabled L \<or> slot L w = None \<or> slot L w = Some []"
  then show "getLogs P L w = (Array [], w)"
    by (auto simp add: getLogs_def safeGet_eq)
qed

theorem corrupt_payload_recovery_witness:
  "getLogs ref_host Logger_fields corrupt_world = (Array [], fresh_world)
   \<and> getLogs ref_host Logger_fields fresh_world = (Array [], fresh_world)
   \<and> getLogs ref_host (disable Logger_fields) corrupt_world = (Array [], corrupt_world)"
proof -
  have p: "JSON_parse ref_host ''not json'' = Inl SyntaxError"
    by (simp add: ref_host_parse ref_parse_value_def ref_parse_def p_array_def p_string_def
        expect_def skip_ws_def is_ws_def newline_def dquote_def)
  have h: "enabled Logger_fields \<and> slot Logger_fields corrupt_world = Some ''not json''
      \<and> ''not json'' \<noteq> [] \<and> JSON_parse ref_host ''not json'' = Inl SyntaxError"
    by (simp add: p slot_def corrupt_world_def fresh_world_def fresh_store_def Logger_fields_def)
  have st: "\<not> getItem_throws (localStorage corrupt_world)
      \<and> \<not> removeItem_throws (localStorage corrupt_world)"
    by (simp add: corrupt_world_def fresh_world_def fresh_store_def)
  have c: "clearLogs Logger_fields corrupt_world = fresh_world"
    by (simp add: clearLogs_def localStorage_removeItem_def corrupt_world_def fresh_world_def
        fresh_store_def Logger_fields_def)
  have g: "snd (getLogs ref_host Logger_fields corrupt_world) = fresh_world"
    using h st by (simp add: getLogs_def safeGet_eq c)
  note t = corrupt_payload_recovery[of Logger_fields corrupt_world "''not json''" ref_host SyntaxError]
  from t[THEN conjunct1] h
  have u: "fst (getLogs ref_host Logger_fields corrupt_world) = Array []
        \<and> fst (getLogs ref_host Logger_fields (snd (getLogs ref_host Logger_fields corrupt_world)))
            = Array []
        \<and> (\<not> getItem_throws (localStorage corrupt_world)
              \<and> \<not> removeItem_throws (localStorage corrupt_world)
            \<longrightarrow> slot Logger_fields (snd (getLogs ref_host Logger_fields corrupt_world)) = None
                \<and> getLogs ref_host Logger_fields (snd (getLogs ref_host Logger_fields corrupt_world))
                    = (Array [], snd (getLogs ref_host Logger_fields corrupt_world)))"
    by (rule mp)
  from u[THEN conjunct2, THEN conjunct2] st
  have "slot Logger_fields (snd (getLogs ref_host Logger_fields corrupt_world)) = None
                \<and> getLogs ref_host Logger_fields (snd (getLogs ref_host Logger_fields corrupt_world))
                    = (Array [], snd (getLogs ref_host Logger_fields corrupt_world))"
    by (rule mp)
  with u[THEN conjunct1]
  have a: "getLogs ref_host Logger_fields corrupt_world = (Array [], fresh_world)"
     and b: "getLogs ref_host Logger_fields fresh_world = (Array [], fresh_world)"
    by (simp_all add: g prod_eq_iff)
  have "\<not> enabled (disable Logger_fields)"
    by (simp add: disable_def)
  with corrupt_payload_recovery[of "disable Logger_fields" corrupt_world "[]" ref_host SyntaxError]
  have "getLogs ref_host (disable Logger_fields) corrupt_world = (Array [], corrupt_world)"
    by blast
  with a b show ?thesis by simp
qed

text \<open>
  C7. In a browser (window and document defined), with a working store whose slot holds a
  collection (is absent, empty, unparsable, or parses to an array), the constructor
  returns, and the collection it leaves is the one it found filtered by
  \<^verbatim>\<open>new Date(log.timestamp).getTime() >= Date.now() - 30 days\<close>: an entry whose timestamp
  is more than \<^verbatim>\<open>logExpireDays\<close> = 30 days before the initialisation time is gone, an entry
  whose timestamp is within the window is kept (an entry exactly 30 days old is kept).
\<close>

theorem init_sweep:
  assumes sp: "stringify_parses P" and st: "stringify_total P"
    and sw: "storage_works (localStorage w)"
    and ha: "holds_array P Logger_fields w"
  shows "\<exists>w'. Logger_constructor P True True now w = (Returned Logger_fields, w')
           \<and> holds_array P Logger_fields w'
           \<and> persisted P Logger_fields w'
               = filter (fresh_enough P (now - 30 * 24 * 60 * 60 * 1000)) (persisted P Logger_fields w)
           \<and> (\<forall>e\<in>set (persisted P Logger_fields w). \<forall>t. Date_getTime P (timestamp e) = Some t \<longrightarrow>
                 (t < now - 30 * 24 * 60 * 60 * 1000 \<longrightarrow> e \<notin> set (persisted P Logger_fields w'))
               \<and> (now - 30 * 24 * 60 * 60 * 1000 \<le> t \<longrightarrow> e \<in> set (persisted P Logger_fields w')))"
proof -
  have en: "enabled Logger_fields" and d: "logExpireDays Logger_fields = 30"
    by (simp_all add: Logger_fields_def)
  from ha obtain xs where sv: "slot_value P Logger_fields w = Array xs"
    by (auto simp add: holds_array_def split: json.splits)
  then have px: "persisted P Logger_fields w = xs"
    by (simp add: persisted_def)
  from cleanExpiredLogs_ok[OF sp st en sw sv, of now]
  obtain w1 where c: "cleanExpiredLogs P Logger_fields now w = (Returned (), w1)"
    and p: "slot_value P Logger_fields w1
              = Array (filter (fresh_enough P (now - 30 * 24 * 60 * 60 * 1000)) xs)"
    by (auto simp add: d)
  let ?w' = "w1\<lparr>listeners := listeners w1 @ [''error'', ''unhandledrejection'']\<rparr>"
  have k: "Logger_constructor P True True now w = (Returned Logger_fields, ?w')"
    by (simp add: Logger_constructor_def c)
  have "slot Logger_fields ?w' = slot Logger_fields w1"
    by (simp add: slot_def)
  then have "slot_value P Logger_fields ?w' = slot_value P Logger_fields w1"
    by (rule slot_value_slot)
  with p have v: "slot_value P Logger_fields ?w'
              = Array (filter (fresh_enough P (now - 30 * 24 * 60 * 60 * 1000)) xs)"
    by simp
  then have h': "holds_array P Logger_fields ?w'"
    by (simp add: holds_array_def)
  from v px have p': "persisted P Logger_fields ?w'
              = filter (fresh_enough P (now - 30 * 24 * 60 * 60 * 1000)) (persisted P Logger_fields w)"
    by (simp add: persisted_def)
  have "\<forall>e\<in>set (persisted P Logger_fields w). \<forall>t. Date_getTime P (timestamp e) = Some t \<longrightarrow>
                 (t < now - 30 * 24 * 60 * 60 * 1000 \<longrightarrow> e \<notin> set (persisted P Logger_fields ?w'))
               \<and> (now - 30 * 24 * 60 * 60 * 1000 \<le> t \<longrightarrow> e \<in> set (persisted P Logger_fields ?w'))"
    unfolding p' by (simp add: fresh_enough_def)
  with k h' p' show ?thesis by blast
qed

theorem init_sweep_witness:
  "persisted ref_host Logger_fields
     (snd (Logger_constructor ref_host True True 1741000000000
             (holding Logger_fields [old_entry, recent_entry])))
   = [recent_entry]"
proof -
  let ?w = "holding Logger_fields [old_entry, recent_entry]"
  have a: "\<not> fresh_enough ref_host (1741000000000 - 30 * 24 * 60 * 60 * 1000) old_entry"
    by (simp add: fresh_enough_def old_entry_def createLogEntry_def ref_host_def iso_getTime_old)
  have b: "fresh_enough ref_host (1741000000000 - 30 * 24 * 60 * 60 * 1000) recent_entry"
    by (simp add: fresh_enough_def recent_entry_def createLogEntry_def ref_host_def amb0_def iso_getTime_recent)
  from init_sweep[OF ref_host_stringify_parses ref_host_stringify_total
      storage_works_holding[of Logger_fields "[old_entry, recent_entry]"]
      holds_array_holding[of Logger_fields "[old_entry, recent_entry]"], where now = 1741000000000]
  obtain w' where "Logger_constructor ref_host True True 1741000000000 ?w = (Returned Logger_fields, w')"
    and "persisted ref_host Logger_fields w'
               = filter (fresh_enough ref_host (1741000000000 - 30 * 24 * 60 * 60 * 1000))
                   (persisted ref_host Logger_fields ?w)"
    by blast
  then show ?thesis
    using a b by (simp add: persisted_holding)
qed

text \<open>
  C8. \<^verbatim>\<open>exportLogs\<close> returns a text that parses to exactly the value \<^verbatim>\<open>getLogs\<close> returns, called
  before or after it, for every instance (enabled or not) and every world, whatever the slot
  holds. The host's indented \<^verbatim>\<open>JSON.stringify\<close> is assumed to round-trip through \<^verbatim>\<open>JSON.parse\<close>.
\<close>

theorem export_round_trip:
  assumes "pretty_parses P"
  shows "\<exists>s w'. exportLogs P L w = (Returned s, w')
           \<and> JSON_parse P s = Inr (fst (getLogs P L w))
           \<and> JSON_parse P s = Inr (fst (getLogs P L w'))"
proof (cases "enabled L")
  case False
  have "JSON_parse P ''[]'' = Inr (Array [])"
    using assms by (simp add: pretty_parses_def)
  then show ?thesis
    using False by (simp add: exportLogs_def getLogs_disabled)
next
  case True
  let ?logs = "fst (getLogs P L w)"
  let ?w1 = "snd (getLogs P L w)"
  from assms obtain s where s: "JSON_stringify_pretty P ?logs = Inr s"
    and p: "JSON_parse P s = Inr ?logs"
    unfolding pretty_parses_def by blast
  have "exportLogs P L w = (Returned s, ?w1)"
    using True s by (simp add: exportLogs_def case_prod_beta)
  then show ?thesis
    using p by (simp add: getLogs_idem)
qed

theorem export_round_trip_witness:
  "exportLogs ref_host Logger_fields (holding Logger_fields (map (entry_of ref_host) calls0))
     = (Returned (enc_array True (map (entry_of ref_host) calls0)),
        holding Logger_fields (map (entry_of ref_host) calls0))
   \<and> ref_parse_value (enc_array True (map (entry_of ref_host) calls0))
       = Inr (fst (getLogs ref_host Logger_fields
                (holding Logger_fields (map (entry_of ref_host) calls0))))"
proof -
  let ?xs = "map (entry_of ref_host) calls0"
  let ?w = "holding Logger_fields ?xs"
  have g: "getLogs ref_host Logger_fields ?w = (Array ?xs, ?w)"
    by (simp add: getLogs_holding Logger_fields_def)
  have e: "exportLogs ref_host Logger_fields ?w = (Returned (enc_array True ?xs), ?w)"
    by (simp add: exportLogs_def g) (simp add: ref_host_def ref_pretty_def Logger_fields_def)
  from export_round_trip[OF ref_host_pretty_parses, of Logger_fields ?w]
  obtain s w' where "exportLogs ref_host Logger_fields ?w = (Returned s, w')"
    and "JSON_parse ref_host s = Inr (fst (getLogs ref_host Logger_fields ?w))"
    by blast
  then show ?thesis
    using e by (simp add: ref_host_def)
qed

text \<open>
  C9. On an enabled instance with a readable store whose slot holds a collection (is absent,
  empty, unparsable, or parses to an array), \<^verbatim>\<open>getLogsSummary\<close> returns the number of
  entries of the persisted collection as \<^verbatim>\<open>total\<close>, and as \<^verbatim>\<open>errors\<close>, \<^verbatim>\<open>warnings\<close>, \<^verbatim>\<open>info\<close>,
  \<^verbatim>\<open>debug\<close> the number of its entries of level \<open>ERROR\<close>, \<open>WARN\<close>, \<open>INFO\<close>, \<open>DEBUG\<close>, counted
  independently by \<^const>\<open>count_list\<close>. On a disabled instance the five counts are zero.
\<close>

theorem summary_counts:
  "(enabled L \<and> \<not> getItem_throws (localStorage w) \<and> holds_array P L w
      \<longrightarrow> fst (getLogsSummary P L w)
          = Returned
              \<lparr>total = length (persisted P L w),
               errors = count_list (map level (persisted P L w)) ERROR,
               warnings = count_list (map level (persisted P L w)) WARN,
               info_count = count_list (map level (persisted P L w)) INFO,
               debug_count = count_list (map level (persisted P L w)) DEBUG\<rparr>)
   \<and> (\<not> enabled L
      \<longrightarrow> fst (getLogsSummary P L w)
          = Returned \<lparr>total = 0, errors = 0, warnings = 0, info_count = 0, debug_count = 0\<rparr>)"
  by (simp add: getLogsSummary_def case_prod_beta getLogs_fst filter_level_count
      holds_array_def persisted_def split: json.splits)

theorem summary_counts_witness:
  "fst (getLogsSummary ref_host Logger_fields (holding Logger_fields six_entries))
     = Returned \<lparr>total = 6, errors = 2, warnings = 1, info_count = 3, debug_count = 0\<rparr>
   \<and> fst (getLogsSummary ref_host (disable Logger_fields) (holding Logger_fields six_entries))
     = Returned \<lparr>total = 0, errors = 0, warnings = 0, info_count = 0, debug_count = 0\<rparr>"
proof -
  have a: "enabled Logger_fields \<and> \<not> getItem_throws (localStorage (holding Logger_fields six_entries))
      \<and> holds_array ref_host Logger_fields (holding Logger_fields six_entries)"
    using storage_works_holding[of Logger_fields six_entries]
    by (simp add: storage_works_def Logger_fields_def holds_array_holding)
  have b: "\<not> enabled (disable Logger_fields)"
    by (simp add: disable_def)
  have l: "map level six_entries = [ERROR, INFO, WARN, INFO, ERROR, INFO]"
    by (simp add: six_entries_def createLogEntry_def)
  have n: "length six_entries = 6"
    by (simp add: six_entries_def)
  note t = summary_counts[of Logger_fields "holding Logger_fields six_entries" ref_host]
  note u = summary_counts[of "disable Logger_fields" "holding Logger_fields six_entries" ref_host]
  from t[THEN conjunct1] a
  have "fst (getLogsSummary ref_host Logger_fields (holding Logger_fields six_entries))
          = Returned \<lparr>total = length (persisted ref_host Logger_fields (holding Logger_fields six_entries)),
             errors = count_list (map level (persisted ref_host Logger_fields (holding Logger_fields six_entries))) ERROR,
             warnings = count_list (map level (persisted ref_host Logger_fields (holding Logger_fields six_entries))) WARN,
             info_count = count_list (map level (persisted ref_host Logger_fields (holding Logger_fields six_entries))) INFO,
             debug_count = count_list (map level (persisted ref_host Logger_fields (holding Logger_fields six_entries))) DEBUG\<rparr>"
    by (rule mp)
  then have 1: "fst (getLogsSummary ref_host Logger_fields (holding Logger_fields six_entries))
     = Returned \<lparr>total = 6, errors = 2, warnings = 1, info_count = 3, debug_count = 0\<rparr>"
    by (simp add: persisted_holding l n)
  from u[THEN conjunct2] b
  have "fst (getLogsSummary ref_host (disable Logger_fields) (holding Logger_fields six_entries))
     = Returned \<lparr>total = 0, errors = 0, warnings = 0, info_count = 0, debug_count = 0\<rparr>"
    by (rule mp)
  with 1 show ?thesis by simp
qed

text \<open>
  C10. A log call at or above the threshold on an enabled instance, whose serialisation
  and write succeed, evicts at most one entry: when \<^verbatim>\<open>getLogs\<close> read back a list \<open>xs\<close> of length
  \<open>n\<close>, the collection written has length \<open>n + 1\<close> if \<open>n < maxLogs\<close> (the entry appended)
  and length \<open>n\<close> otherwise (the entry appended, the first entry dropped). A slot that held
  more than \<^verbatim>\<open>maxLogs\<close> entries still holds more than \<^verbatim>\<open>maxLogs\<close> afterwards.
\<close>

theorem one_shift_per_call:
  assumes sp: "stringify_parses P" and en: "enabled L" and lv: "shouldLog L (call_level c)"
    and g: "fst (getLogs P L w) = Array xs"
    and s: "JSON_stringify P (push_bounded (maxLogs L) xs (entry_of P c)) = Inr s"
    and wr: "\<not> setItem_throws (localStorage w) (storageKey L) s"
  shows "\<exists>w'. log_call P L c w = (Returned (), w') \<and> slot L w' = Some s
           \<and> holds_array P L w'
           \<and> persisted P L w'
               = (if length xs < maxLogs L then xs @ [entry_of P c] else tl (xs @ [entry_of P c]))
           \<and> length (persisted P L w')
               = (if length xs < maxLogs L then length xs + 1 else length xs)
           \<and> (maxLogs L < length xs \<longrightarrow> maxLogs L < length (persisted P L w'))"
proof -
  let ?e = "entry_of P c"
  let ?w1 = "snd (getLogs P L w)"
  let ?w2 = "safeLocalStorageSet (storageKey L) s ?w1"
  have sv: "saveLog P L ?e w = (Returned (), ?w2)"
    using en lv g s by (simp add: saveLog_eq level_entry_of)
  have call: "log_call P L c w = (Returned (), logToConsole L ?e ?w2)"
    by (simp add: log_call_eq sv)
  have wr1: "\<not> setItem_throws (localStorage ?w1) (storageKey L) s"
    using wr by (simp add: getLogs_frame)
  then have sl: "slot L (logToConsole L ?e ?w2) = Some s"
    by (simp add: slot_logToConsole slot_set)
  from sp s have "reads_back P (push_bounded (maxLogs L) xs ?e)"
    by (rule reads_back_global)
  from this s wr1 have "slot_value P L ?w2 = Array (push_bounded (maxLogs L) xs ?e)"
    by (rule slot_value_set)
  then have v: "slot_value P L (logToConsole L ?e ?w2) = Array (push_bounded (maxLogs L) xs ?e)"
    by (simp add: slot_value_logToConsole)
  then have ha: "holds_array P L (logToConsole L ?e ?w2)"
    by (simp add: holds_array_def)
  from v have pe: "persisted P L (logToConsole L ?e ?w2) = push_bounded (maxLogs L) xs ?e"
    by (simp add: persisted_def)
  have pb: "push_bounded (maxLogs L) xs ?e
              = (if length xs < maxLogs L then xs @ [?e] else tl (xs @ [?e]))"
    by (auto simp add: push_bounded_def)
  have len: "length (push_bounded (maxLogs L) xs ?e)
              = (if length xs < maxLogs L then length xs + 1 else length xs)"
    by (rule length_push_bounded)
  show ?thesis
    using call sl ha pe pb len by auto
qed

theorem one_shift_per_call_witness:
  "fst (getLogs ref_host Logger_fields (holding Logger_fields (replicate 1002 entry0)))
     = Array (replicate 1002 entry0)
   \<and> length (replicate 1002 entry0) = 1002
   \<and> persisted ref_host Logger_fields
        (snd (error ref_host Logger_fields ''failed'' None amb0
                (holding Logger_fields (replicate 1002 entry0))))
      = replicate 1001 entry0 @ [entry_of ref_host (ERROR, ''failed'', None, amb0)]"
proof -
  let ?c = "(ERROR, ''failed'', None, amb0) :: string log_call"
  let ?w = "holding Logger_fields (replicate 1002 entry0)"
  let ?s = "enc_array False (push_bounded 1000 (replicate 1002 entry0) (entry_of ref_host ?c))"
  have en: "enabled Logger_fields" and m: "maxLogs Logger_fields = 1000"
    by (simp_all add: Logger_fields_def)
  have lv: "shouldLog Logger_fields (call_level ?c)"
    by (simp add: shouldLog_def Logger_fields_def)
  have g: "fst (getLogs ref_host Logger_fields ?w) = Array (replicate 1002 entry0)"
    by (simp add: getLogs_holding en)
  have s: "JSON_stringify ref_host
             (push_bounded (maxLogs Logger_fields) (replicate 1002 entry0)
                (entry_of ref_host ?c)) = Inr ?s"
    by (simp add: m ref_host_stringify)
  have wr: "\<not> setItem_throws (localStorage ?w) (storageKey Logger_fields) ?s"
    using storage_works_holding[of Logger_fields "replicate 1002 entry0"]
    by (simp add: storage_works_def)
  have t: "tl (replicate 1002 entry0 @ [entry_of ref_host ?c])
             = replicate 1001 entry0 @ [entry_of ref_host ?c]"
  proof -
    have "(1002::nat) = Suc 1001" by simp
    then have "replicate 1002 entry0 = entry0 # replicate 1001 entry0"
      by (simp only: replicate_Suc)
    then show ?thesis by simp
  qed
  from one_shift_per_call[OF ref_host_stringify_parses en lv g s wr]
  obtain w' where "log_call ref_host Logger_fields ?c ?w = (Returned (), w')"
    and "persisted ref_host Logger_fields w'
               = (if length (replicate 1002 entry0) < maxLogs Logger_fields
                  then replicate 1002 entry0 @ [entry_of ref_host ?c]
                  else tl (replicate 1002 entry0 @ [entry_of ref_host ?c]))"
    by blast
  then show ?thesis
    by (simp add: g m t)
qed

end
